theory Spec2Isabelle
  imports Complex_Main "HOL-Library.AList" "HOL-Library.Char_ord" "HOL-Library.List_Lexorder"
begin

section \<open>Python strings\<close>

text \<open>
  A Python \<open>str\<close> is modelled as a \<open>string\<close>: a list of characters, each a code point
  below 256. The helpers below are the library operations the scripts call on strings:
  \<open>str.strip()\<close>, \<open>str.lower()\<close>, \<open>int(str)\<close> and the decimal rendering an f-string makes
  of an integer.
\<close>

definition is_space :: "char \<Rightarrow> bool" where
  \<comment> \<open>\<open>str.isspace\<close> on the code points below 256: TAB..CR, FS..US, SPACE, NEL, NBSP.\<close>
  "is_space c = ((of_char c :: nat) \<in> set [9, 10, 11, 12, 13, 28, 29, 30, 31, 32, 133, 160])"

definition py_strip :: "string \<Rightarrow> string" where
  "py_strip s = rev (dropWhile is_space (rev (dropWhile is_space s)))"

definition lower_char :: "char \<Rightarrow> char" where
  \<comment> \<open>\<open>A..Z\<close> and the upper-case letters of Latin-1 (\<open>0xC0..0xDE\<close> without \<open>0xD7\<close>).\<close>
  "lower_char c =
     (let n = (of_char c :: nat)
      in if (65 \<le> n \<and> n \<le> 90) \<or> (192 \<le> n \<and> n \<le> 222 \<and> n \<noteq> 215)
         then char_of (n + 32) else c)"

definition py_lower :: "string \<Rightarrow> string" where
  "py_lower s = map lower_char s"

definition is_digit :: "char \<Rightarrow> bool" where
  "is_digit c = (48 \<le> (of_char c :: nat) \<and> (of_char c :: nat) \<le> 57)"

definition digit_val :: "char \<Rightarrow> nat" where
  "digit_val c = (of_char c :: nat) - 48"

fun parse_digits :: "nat \<Rightarrow> string \<Rightarrow> nat option" where
  \<comment> \<open>Decimal digits, a single underscore allowed between two digits.\<close>
  "parse_digits acc [] = Some acc"
| "parse_digits acc (c # cs) =
     (if is_digit c then parse_digits (10 * acc + digit_val c) cs
      else if c = CHR ''_'' \<and> cs \<noteq> [] \<and> is_digit (hd cs) then parse_digits acc cs
      else None)"

definition int_max_str_digits :: nat where
  \<comment> \<open>\<open>sys.get_int_max_str_digits()\<close>, at its default.\<close>
  "int_max_str_digits = 4300"

definition py_int :: "string \<Rightarrow> int option" where
  \<comment> \<open>\<open>int(s)\<close> on an already stripped string; \<open>None\<close> is the \<open>ValueError\<close>, also the one
      for more digits than \<open>int\<close> converts.\<close>
  "py_int s =
     (case s of
        [] \<Rightarrow> None
      | c # cs \<Rightarrow>
          (let neg = (c = CHR ''-'');
               body = (if c = CHR ''+'' \<or> c = CHR ''-'' then cs else s)
           in if body = [] \<or> \<not> is_digit (hd body) then None
              else if length (filter is_digit body) > int_max_str_digits then None
              else map_option (\<lambda>n. if neg then - int n else int n) (parse_digits 0 body)))"

definition digit_char :: "nat \<Rightarrow> char" where
  \<comment> \<open>The digit for \<open>d\<close> below ten.\<close>
  "digit_char d = ''0123456789'' ! d"

fun str_nat :: "nat \<Rightarrow> string" where
  "str_nat n = (if n < 10 then [digit_char n] else str_nat (n div 10) @ [digit_char (n mod 10)])"

declare str_nat.simps [simp del]

definition py_str :: "int \<Rightarrow> string" where
  \<comment> \<open>How \<open>f"{i}"\<close> renders an \<open>int\<close>.\<close>
  "py_str i = (if i < 0 then CHR ''-'' # str_nat (nat (- i)) else str_nat (nat i))"

section \<open>Python values\<close>

text \<open>
  The values the scripts move around as \<open>Any\<close>: what \<open>json\<close> reads and writes, plus tuples
  (which it writes as arrays) and opaque objects, each with its identity, standing for
  anything it cannot serialise. \<open>PNone\<close> is Python's \<open>None\<close>: the value of an absent field and the value
  that JSON \<open>null\<close> parses to are the same object. Floats are taken as finite and modelled
  as reals; a dict is the list of its items in insertion order, its keys strings.
\<close>

datatype pyval =
    PNone
  | PBool bool
  | PInt int
  | PFloat real
  | PStr string
  | PList "pyval list"
  | PTuple "pyval list"
  | PDict "(string \<times> pyval) list"
  | PObject nat

text \<open>
  The exceptions the model lets through. Floats are real numbers here, except that
  \<open>float(n)\<close> of an integer too large for a float raises \<open>OverflowError\<close>: \<open>py_float\<close> is
  that conversion, wherever Python makes it (\<open>float(n)\<close>, or an \<open>int\<close> meeting a \<open>float\<close> in
  arithmetic), \<open>None\<close> being the exception. The bound is half a unit in the last place
  above the largest float.
\<close>

datatype io_op = Mkdir | Open | Write | Replace

datatype py_exception = OSError io_op | TypeError | ValueError | OverflowError | JSONDecodeError

definition py_float :: "int \<Rightarrow> real option" where
  "py_float n = (if \<bar>n\<bar> \<ge> 2 ^ 1024 - 2 ^ 970 then None else Some (of_int n))"

section \<open>github\_token.py\<close>

definition DEFAULT_GITHUB_TOKEN_ENVS :: "string list" where
  "DEFAULT_GITHUB_TOKEN_ENVS = [''GH_TOKEN'', ''GH_API_TOKEN'', ''GITHUB_TOKEN'']"

text \<open>
  The three loops that build \<open>candidates\<close>. Only the defaults are tested against the names
  already present; the preferred name and the extra names are appended as they come.
\<close>

definition add_preferred :: "string \<Rightarrow> string list" where
  "add_preferred preferred_env =
     (if preferred_env \<noteq> [] \<and> py_strip preferred_env \<noteq> [] then [py_strip preferred_env] else [])"

fun add_extras :: "string list \<Rightarrow> string list \<Rightarrow> string list" where
  "add_extras candidates [] = candidates"
| "add_extras candidates (k # ks) =
     (if py_strip k \<noteq> [] then add_extras (candidates @ [py_strip k]) ks
      else add_extras candidates ks)"

fun add_defaults :: "string list \<Rightarrow> string list \<Rightarrow> string list" where
  "add_defaults candidates [] = candidates"
| "add_defaults candidates (k # ks) =
     (if k \<notin> set candidates then add_defaults (candidates @ [k]) ks
      else add_defaults candidates ks)"

definition token_candidates :: "string \<Rightarrow> string list \<Rightarrow> string list" where
  "token_candidates preferred_env extra_envs =
     add_defaults (add_extras (add_preferred preferred_env) extra_envs) DEFAULT_GITHUB_TOKEN_ENVS"

fun first_token :: "(string \<rightharpoonup> string) \<Rightarrow> string list \<Rightarrow> string option" where
  \<comment> \<open>The final loop: \<open>os.environ.get(k)\<close>, stripped, returned when non-empty.\<close>
  "first_token env [] = None"
| "first_token env (k # ks) =
     (case env k of
        None \<Rightarrow> first_token env ks
      | Some v \<Rightarrow> if py_strip v \<noteq> [] then Some (py_strip v) else first_token env ks)"

definition get_github_token :: "(string \<rightharpoonup> string) \<Rightarrow> string \<Rightarrow> string list \<Rightarrow> string option" where
  "get_github_token env preferred_env extra_envs =
     first_token env (token_candidates preferred_env extra_envs)"

definition has_github_token :: "(string \<rightharpoonup> string) \<Rightarrow> string \<Rightarrow> string list \<Rightarrow> bool" where
  "has_github_token env preferred_env extra_envs =
     (get_github_token env preferred_env extra_envs \<noteq> None)"

section \<open>http.py\<close>

subsection \<open>Header helpers\<close>

text \<open>
  A header dict is the list of its items in iteration order; \<open>None\<close> for the headers is
  \<open>None\<close> here, and an empty dict is the other falsy case of \<open>if not headers\<close>.
\<close>

type_synonym header_dict = "(string \<times> string) list"

definition maybe_int :: "string option \<Rightarrow> int option" where
  "maybe_int s =
     (case s of
        None \<Rightarrow> None
      | Some v \<Rightarrow> if py_strip v = [] then None else py_int (py_strip v))"

fun find_header :: "string \<Rightarrow> header_dict \<Rightarrow> string option" where
  \<comment> \<open>The loop over \<open>headers.items()\<close>, \<open>target\<close> already stripped and lowered.\<close>
  "find_header target [] = None"
| "find_header target ((k, v) # kvs) =
     (if py_lower (py_strip k) = target then Some v else find_header target kvs)"

definition get_header :: "header_dict option \<Rightarrow> string \<Rightarrow> string option" where
  "get_header headers name =
     (case headers of
        None \<Rightarrow> None
      | Some h \<Rightarrow> if h = [] then None else find_header (py_lower (py_strip name)) h)"

definition retry_after_seconds :: "header_dict option \<Rightarrow> int option" where
  "retry_after_seconds headers =
     (case headers of
        None \<Rightarrow> None
      | Some h \<Rightarrow> if h = [] then None else maybe_int (get_header headers ''Retry-After''))"

definition py_trunc :: "real \<Rightarrow> int" where
  \<comment> \<open>\<open>int(x)\<close> on a float: towards zero.\<close>
  "py_trunc x = (if 0 \<le> x then \<lfloor>x\<rfloor> else \<lceil>x\<rceil>)"

definition rate_limit_reset_wait_s :: "real \<Rightarrow> header_dict option \<Rightarrow> py_exception + int option" where
  \<comment> \<open>\<open>now\<close> is what \<open>time.time()\<close> returns inside the call. The subtraction converts
      \<open>reset_epoch\<close> to a float, which raises for an integer too large.\<close>
  "rate_limit_reset_wait_s now headers =
     (let reset_raw = get_header headers ''X-RateLimit-Reset'';
          remaining_raw = get_header headers ''X-RateLimit-Remaining'';
          reset_epoch = maybe_int reset_raw;
          remaining = maybe_int remaining_raw
      in case reset_epoch of
           None \<Rightarrow> Inr None
         | Some reset \<Rightarrow>
             if (case remaining of None \<Rightarrow> False | Some n \<Rightarrow> n > 0) then Inr None
             else (case py_float reset of
                     None \<Rightarrow> Inl OverflowError
                   | Some x \<Rightarrow> Inr (Some (max 0 (py_trunc (x - now))))))"

subsection \<open>Configuration and result\<close>

record RetryConfig =
  max_attempts :: int
  backoff_base_s :: real
  backoff_cap_s :: real
  retry_statuses :: "int list"

definition default_RetryConfig :: RetryConfig where
  "default_RetryConfig =
     \<lparr>max_attempts = 6, backoff_base_s = 0.5, backoff_cap_s = 60,
      retry_statuses = [403, 429, 500, 502, 503, 504]\<rparr>"

record FetchJsonResult =
  ok :: bool
  status :: "int option"
  data :: pyval
  headers :: "header_dict option"
  error :: "string option"
  attempts :: int
  last_retry_after_s :: "int option"

subsection \<open>The world a call runs in\<close>

text \<open>
  What \<open>session.get\<close> does on an attempt: it raises a \<open>requests.RequestException\<close> (the
  name of its class and its message), or it answers. Of a response the code reads the
  status code, the headers, \<open>resp.json()\<close> (the parsed value, or the message of the
  exception it raises) and \<open>resp.text\<close> (\<open>None\<close> when reading it raises).

  The world gives, for each attempt number, the outcome of the request made in that
  attempt, the reading of \<open>time.time()\<close> and the draw of \<open>random.random()\<close>. What the call
  does to the world is the trace of its requests and of the sleeps it went through.

  \<open>time.sleep\<close> raises for a duration it cannot take: \<open>OverflowError\<close> when the duration in
  nanoseconds, rounded away from zero, does not fit 64 bits, \<open>ValueError\<close> when it is
  negative. None of the exceptions of this module's arithmetic or of \<open>time.sleep\<close> is
  caught in \<open>fetch_json\<close>: they end the call.
\<close>

record response =
  status_code :: int
  resp_headers :: header_dict
  resp_json :: "string + pyval"
  resp_text :: "string option"

datatype outcome = RequestException string string | Response response

record world =
  session_get :: "int \<Rightarrow> outcome"
  time_time :: "int \<Rightarrow> real"
  random_random :: "int \<Rightarrow> real"

datatype event = Get int | Sleep real

datatype loop_exit = Return FetchJsonResult | Fall_through "int option" | Raise py_exception

datatype call_outcome = Returns FetchJsonResult | Raises py_exception

definition time_sleep :: "real \<Rightarrow> py_exception option" where
  "time_sleep secs =
     (if \<lceil>secs * 10 ^ 9\<rceil> \<ge> 2 ^ 63 \<or> \<lfloor>secs * 10 ^ 9\<rfloor> < - (2 ^ 63) then Some OverflowError
      else if secs < 0 then Some ValueError
      else None)"

subsection \<open>fetch\_json\<close>

definition dict_or_none :: "header_dict \<Rightarrow> header_dict option" where
  \<comment> \<open>\<open>dict(resp.headers) if resp.headers else None\<close>\<close>
  "dict_or_none h = (if h = [] then None else Some h)"

definition backoff :: "RetryConfig \<Rightarrow> int \<Rightarrow> py_exception + real" where
  \<comment> \<open>\<open>min(retry.backoff_cap_s, (2**attempt) * retry.backoff_base_s)\<close>: the product converts
      \<open>2**attempt\<close> to a float.\<close>
  "backoff retry attempt =
     (case py_float (2 ^ nat attempt) of
        None \<Rightarrow> Inl OverflowError
      | Some p \<Rightarrow> Inr (min (backoff_cap_s retry) (p * backoff_base_s retry)))"

definition raise_to :: "real \<Rightarrow> int option \<Rightarrow> py_exception + real" where
  \<comment> \<open>\<open>if isinstance(n, int): wait_s = max(wait_s, float(n))\<close>\<close>
  "raise_to wait_s secs =
     (case secs of
        None \<Rightarrow> Inr wait_s
      | Some n \<Rightarrow> (case py_float n of None \<Rightarrow> Inl OverflowError | Some x \<Rightarrow> Inr (max wait_s x)))"

definition network_wait :: "RetryConfig \<Rightarrow> world \<Rightarrow> int \<Rightarrow> py_exception + real" where
  \<comment> \<open>The argument of \<open>time.sleep\<close> after a request that raised.\<close>
  "network_wait retry w attempt =
     (case backoff retry attempt of
        Inl e \<Rightarrow> Inl e
      | Inr wait_s \<Rightarrow> Inr (wait_s + random_random w attempt * 0.25))"

definition network_failure :: "string \<Rightarrow> string \<Rightarrow> int \<Rightarrow> int option \<Rightarrow> FetchJsonResult" where
  "network_failure ename emsg attempt last_retry_after =
     \<lparr>ok = False, status = None, data = PNone, headers = None,
      error = Some (ename @ '': '' @ emsg), attempts = attempt,
      last_retry_after_s = last_retry_after\<rparr>"

definition success_path :: "response \<Rightarrow> int \<Rightarrow> int option \<Rightarrow> FetchJsonResult" where
  \<comment> \<open>The \<open>try\<close>/\<open>except\<close> around \<open>resp.json()\<close>.\<close>
  "success_path resp attempt last_retry_after =
     (case resp_json resp of
        Inr parsed \<Rightarrow>
          \<lparr>ok = True, status = Some (status_code resp), data = parsed,
           headers = dict_or_none (resp_headers resp), error = None, attempts = attempt,
           last_retry_after_s = last_retry_after\<rparr>
      | Inl e \<Rightarrow>
          \<lparr>ok = False, status = Some (status_code resp), data = PNone,
           headers = dict_or_none (resp_headers resp),
           error = Some (''Invalid JSON payload: '' @ e), attempts = attempt,
           last_retry_after_s = last_retry_after\<rparr>)"

definition retry_wait :: "RetryConfig \<Rightarrow> world \<Rightarrow> response \<Rightarrow> int \<Rightarrow> py_exception + real" where
  \<comment> \<open>The argument of \<open>time.sleep\<close> in the retry branch, computed in the order of the source:
      \<open>rl_wait\<close>, the backoff, then the two raises of \<open>wait_s\<close>, then the jitter.\<close>
  "retry_wait retry w resp attempt =
     (let hdrs = dict_or_none (resp_headers resp);
          ra = retry_after_seconds hdrs
      in case rate_limit_reset_wait_s (time_time w attempt) hdrs of
           Inl e \<Rightarrow> Inl e
         | Inr rl_wait \<Rightarrow>
             (case backoff retry attempt of
                Inl e \<Rightarrow> Inl e
              | Inr wait_s \<Rightarrow>
                  (case raise_to wait_s ra of
                     Inl e \<Rightarrow> Inl e
                   | Inr wait_s \<Rightarrow>
                       (case raise_to wait_s rl_wait of
                          Inl e \<Rightarrow> Inl e
                        | Inr wait_s \<Rightarrow> Inr (wait_s + random_random w attempt * 0.25)))))"

definition final_failure :: "response \<Rightarrow> int \<Rightarrow> int option \<Rightarrow> FetchJsonResult" where
  "final_failure resp attempt last_retry_after =
     (let msg = ''HTTP '' @ py_str (status_code resp);
          msg = (case resp_text resp of
                   None \<Rightarrow> msg
                 | Some body \<Rightarrow> if body \<noteq> [] then msg @ '': '' @ take 5000 body else msg);
          ra = retry_after_seconds (dict_or_none (resp_headers resp))
      in \<lparr>ok = False, status = Some (status_code resp), data = PNone,
          headers = dict_or_none (resp_headers resp),
          error = Some (msg @ (case ra of
                                 None \<Rightarrow> []
                               | Some n \<Rightarrow> '' (Retry-After='' @ py_str n @ ''s)'')),
          attempts = attempt,
          last_retry_after_s = (case ra of None \<Rightarrow> last_retry_after | Some n \<Rightarrow> Some n)\<rparr>)"

definition then_events :: "event list \<Rightarrow> loop_exit \<times> event list \<Rightarrow> loop_exit \<times> event list" where
  "then_events evs rest = (fst rest, evs @ snd rest)"

definition sleep_then ::
  "int \<Rightarrow> py_exception + real \<Rightarrow> loop_exit \<times> event list \<Rightarrow> loop_exit \<times> event list" where
  \<comment> \<open>After the request of \<open>attempt\<close>: the wait is computed, \<open>time.sleep\<close> is called with it,
      and \<open>continue\<close> gives the rest of the loop; an exception on the way ends the call.\<close>
  "sleep_then attempt wait rest =
     (case wait of
        Inl e \<Rightarrow> (Raise e, [Get attempt])
      | Inr wait_s \<Rightarrow>
          (case time_sleep wait_s of
             Some e \<Rightarrow> (Raise e, [Get attempt])
           | None \<Rightarrow> then_events [Get attempt, Sleep wait_s] rest))"

text \<open>
  The \<open>for\<close> loop over the attempt numbers still to run. An empty list is the loop running
  out: control falls through to the code after it, with the \<open>last_retry_after\<close> of that
  moment.
\<close>

fun fetch_loop :: "RetryConfig \<Rightarrow> world \<Rightarrow> int option \<Rightarrow> int list \<Rightarrow> loop_exit \<times> event list" where
  "fetch_loop retry w last_retry_after [] = (Fall_through last_retry_after, [])"
| "fetch_loop retry w last_retry_after (attempt # rest) =
     (case session_get w attempt of
        RequestException ename emsg \<Rightarrow>
          if attempt \<ge> max_attempts retry
          then (Return (network_failure ename emsg attempt last_retry_after), [Get attempt])
          else sleep_then attempt (network_wait retry w attempt)
                 (fetch_loop retry w last_retry_after rest)
      | Response resp \<Rightarrow>
          if 200 \<le> status_code resp \<and> status_code resp < 300
          then (Return (success_path resp attempt last_retry_after), [Get attempt])
          else if status_code resp \<in> set (retry_statuses retry) \<and> attempt < max_attempts retry
          then sleep_then attempt (retry_wait retry w resp attempt)
                 (fetch_loop retry w
                    (case retry_after_seconds (dict_or_none (resp_headers resp)) of
                       None \<Rightarrow> last_retry_after
                     | Some n \<Rightarrow> Some n)
                    rest)
          else (Return (final_failure resp attempt last_retry_after), [Get attempt]))"

definition fetch_json :: "RetryConfig \<Rightarrow> world \<Rightarrow> call_outcome \<times> event list" where
  "fetch_json retry w =
     (case fetch_loop retry w None [1..max 1 (max_attempts retry)] of
        (Return r, tr) \<Rightarrow> (Returns r, tr)
      | (Fall_through last_retry_after, tr) \<Rightarrow>
          (Returns \<lparr>ok = False, status = None, data = PNone, headers = None,
                    error = Some ''Unknown error.'', attempts = max_attempts retry,
                    last_retry_after_s = last_retry_after\<rparr>, tr)
      | (Raise e, tr) \<Rightarrow> (Raises e, tr))"

section \<open>io.py\<close>

subsection \<open>What json writes and reads\<close>

text \<open>
  \<open>json.dump\<close> and \<open>json.load\<close> belong to the standard library. They are modelled by the
  conversion table of the \<open>json\<close> module, between Python values and JSON documents; a
  file holds a document, not characters. \<open>to_json\<close> is \<open>json.dump(obj, f, indent=2,
  ensure_ascii=False, sort_keys=True)\<close> (\<open>None\<close> is the \<open>TypeError\<close> for a value that cannot
  be serialised), \<open>of_json\<close> is \<open>json.load\<close>.
\<close>

datatype json =
    JNull
  | JBool bool
  | JInt int
  | JFloat real
  | JString string
  | JArray "json list"
  | JObject "(string \<times> json) list"

fun to_json :: "pyval \<Rightarrow> json option" where
  "to_json PNone = Some JNull"
| "to_json (PBool b) = Some (JBool b)"
| "to_json (PInt i) = Some (JInt i)"
| "to_json (PFloat x) = Some (JFloat x)"
| "to_json (PStr s) = Some (JString s)"
| "to_json (PList xs) = map_option JArray (those (map to_json xs))"
| "to_json (PTuple xs) = map_option JArray (those (map to_json xs))"
| "to_json (PDict kvs) =
     map_option (\<lambda>ds. JObject (sort_key fst ds))
       (those (map (\<lambda>(k, v). map_option (Pair k) (to_json v)) kvs))"
| "to_json (PObject i) = None"

definition dict_of_pairs :: "(string \<times> 'v) list \<Rightarrow> (string \<times> 'v) list" where
  \<comment> \<open>A dict filled pair by pair: a key met again keeps its place and takes the new value.\<close>
  "dict_of_pairs kvs = foldl (\<lambda>d (k, v). AList.update k v d) [] kvs"

fun of_json :: "json \<Rightarrow> pyval" where
  "of_json JNull = PNone"
| "of_json (JBool b) = PBool b"
| "of_json (JInt i) = PInt i"
| "of_json (JFloat x) = PFloat x"
| "of_json (JString s) = PStr s"
| "of_json (JArray ds) = PList (map of_json ds)"
| "of_json (JObject kds) = PDict (dict_of_pairs (map (\<lambda>(k, d). (k, of_json d)) kds))"

subsection \<open>Files\<close>

text \<open>
  A path is its parent directory and its name. A file holds a complete document (the
  text \<open>json.dump\<close> wrote, with the newline after it), the complete text of a document
  with the newline still missing (\<open>No_newline\<close>), or is \<open>Incomplete\<close>: opened for writing
  and cut off before the end of the text, possibly empty; what is left of a text cut off
  is taken not to be a JSON text itself, so that \<open>json.load\<close> raises on it. Directories are
  not tracked: \<open>mkdir\<close> either raises or leaves every file as it is.

  Which library calls raise is the world's choice, given as \<open>faults\<close>; of a write that
  raises, \<open>raises_at_newline\<close> tells whether it is the write of the newline after \<open>json.dump\<close> or
  a write inside \<open>json.dump\<close>. A file that is not there makes \<open>open\<close> for reading raise as
  well, and a value \<open>json\<close> cannot serialise makes \<open>json.dump\<close> raise \<open>TypeError\<close> after it
  has written part of the text.
\<close>

record path =
  parent :: "string list"
  name :: string

datatype file_content = Document json | No_newline json | Incomplete

type_synonym filesystem = "path \<Rightarrow> file_content option"

record faults =
  mkdir_raises :: bool
  open_raises :: bool
  write_raises :: bool
  raises_at_newline :: bool
  replace_raises :: bool
  exists_raises :: bool
  unlink_raises :: bool

definition load_json :: "faults \<Rightarrow> filesystem \<Rightarrow> path \<Rightarrow> py_exception + pyval" where
  "load_json w fs p =
     (if open_raises w then Inl (OSError Open)
      else case fs p of
             None \<Rightarrow> Inl (OSError Open)
           | Some Incomplete \<Rightarrow> Inl JSONDecodeError
           | Some (No_newline d) \<Rightarrow> Inr (of_json d)
           | Some (Document d) \<Rightarrow> Inr (of_json d))"

definition write_json :: "faults \<Rightarrow> filesystem \<Rightarrow> path \<Rightarrow> pyval \<Rightarrow> py_exception option \<times> filesystem" where
  \<comment> \<open>The \<open>with p.open("w") as f\<close> block: \<open>json.dump\<close>, then the newline.\<close>
  "write_json w fs p obj =
     (if open_raises w then (Some (OSError Open), fs)
      else case to_json obj of
             None \<Rightarrow> (Some TypeError, fs(p \<mapsto> Incomplete))
           | Some d \<Rightarrow>
               if write_raises w
               then (Some (OSError Write),
                     fs(p \<mapsto> (if raises_at_newline w then No_newline d else Incomplete)))
               else (None, fs(p \<mapsto> Document d)))"

definition dump_json :: "faults \<Rightarrow> filesystem \<Rightarrow> path \<Rightarrow> pyval \<Rightarrow> py_exception option \<times> filesystem" where
  "dump_json w fs p obj =
     (if mkdir_raises w then (Some (OSError Mkdir), fs) else write_json w fs p obj)"

definition with_name :: "path \<Rightarrow> string \<Rightarrow> path option" where
  \<comment> \<open>\<open>Path.with_name\<close>; \<open>None\<close> is its \<open>ValueError\<close> on a path with an empty name.\<close>
  "with_name p n = (if name p = [] then None else Some (p\<lparr>name := n\<rparr>))"

definition replace :: "faults \<Rightarrow> filesystem \<Rightarrow> path \<Rightarrow> path \<Rightarrow> py_exception option \<times> filesystem" where
  \<comment> \<open>\<open>tmp.replace(path)\<close>: the rename.\<close>
  "replace w fs tmp p =
     (if replace_raises w then (Some (OSError Replace), fs)
      else (None, (fs(tmp := None))(p := fs tmp)))"

definition cleanup :: "faults \<Rightarrow> filesystem \<Rightarrow> path \<Rightarrow> filesystem" where
  \<comment> \<open>The \<open>finally\<close> block; whatever it raises is swallowed.\<close>
  "cleanup w fs tmp =
     (if exists_raises w then fs
      else if fs tmp \<noteq> None then (if unlink_raises w then fs else fs(tmp := None))
      else fs)"

definition dump_json_atomic ::
  "faults \<Rightarrow> nat \<Rightarrow> filesystem \<Rightarrow> path \<Rightarrow> pyval \<Rightarrow> py_exception option \<times> filesystem" where
  \<comment> \<open>\<open>pid\<close> is \<open>os.getpid()\<close>. The result is the exception that reaches the caller, if any.\<close>
  "dump_json_atomic w pid fs p obj =
     (if mkdir_raises w then (Some (OSError Mkdir), fs)
      else case with_name p (name p @ ''.tmp.'' @ str_nat pid) of
             None \<Rightarrow> (Some ValueError, fs)
           | Some tmp \<Rightarrow>
               (case write_json w fs tmp obj of
                  (Some e, fs1) \<Rightarrow> (Some e, cleanup w fs1 tmp)
                | (None, fs1) \<Rightarrow>
                    (case replace w fs1 tmp p of
                       (e, fs2) \<Rightarrow> (e, cleanup w fs2 tmp))))"

section \<open>The claims' own words\<close>

subsection \<open>Token resolution as the specification words it\<close>

text \<open>
  The candidate list of the specification: the preferred name, the extra names and the
  defaults, blank names left out, every name kept at its first occurrence only. The
  token it promises is the value of the first candidate whose trimmed value is not empty.
\<close>


fun dedup_from :: "'a list \<Rightarrow> 'a list \<Rightarrow> 'a list" where
  "dedup_from seen [] = []"
| "dedup_from seen (x # xs) =
     (if x \<in> set seen then dedup_from seen xs else x # dedup_from (x # seen) xs)"

definition candidate_names :: "string \<Rightarrow> string list \<Rightarrow> string list" where
  "candidate_names preferred_env extra_envs =
     dedup_from [] (filter (\<lambda>k. k \<noteq> []) (map py_strip (preferred_env # extra_envs))
                    @ DEFAULT_GITHUB_TOKEN_ENVS)"

fun first_nonblank :: "(string \<rightharpoonup> string) \<Rightarrow> string list \<Rightarrow> string option" where
  "first_nonblank env [] = None"
| "first_nonblank env (k # ks) =
     (case env k of
        None \<Rightarrow> first_nonblank env ks
      | Some v \<Rightarrow> if py_strip v \<noteq> [] then Some v else first_nonblank env ks)"

definition claimed_token :: "(string \<rightharpoonup> string) \<Rightarrow> string \<Rightarrow> string list \<Rightarrow> string option" where
  "claimed_token env preferred_env extra_envs =
     first_nonblank env (candidate_names preferred_env extra_envs)"

definition env_blank_then_abc :: "string \<rightharpoonup> string" where
  "env_blank_then_abc = [''GH_TOKEN'' \<mapsto> '''', ''GITHUB_TOKEN'' \<mapsto> ''abc'']"

definition env_padded :: "string \<rightharpoonup> string" where
  "env_padded = [''GH_TOKEN'' \<mapsto> '' abc '']"

subsection \<open>The fetch result and its trace as the specification words them\<close>

definition claimed_invariant :: "FetchJsonResult \<Rightarrow> bool" where
  \<comment> \<open>\<open>ok == true\<close> if and only if \<open>data\<close> is non-null and \<open>error\<close> is null.\<close>
  "claimed_invariant r = (ok r = (data r \<noteq> PNone \<and> error r = None))"

definition result_invariant :: "FetchJsonResult \<Rightarrow> bool" where
  \<comment> \<open>\<open>ok == true\<close> if and only if \<open>error\<close> is null, and \<open>data\<close> is null unless \<open>ok\<close>.\<close>
  "result_invariant r = (ok r = (error r = None) \<and> (ok r \<or> data r = PNone))"

fun requests :: "event list \<Rightarrow> int list" where
  \<comment> \<open>The attempts that made a request, in order.\<close>
  "requests [] = []"
| "requests (Get k # evs) = k # requests evs"
| "requests (Sleep d # evs) = requests evs"

fun sleeps :: "event list \<Rightarrow> real list" where
  "sleeps [] = []"
| "sleeps (Get k # evs) = sleeps evs"
| "sleeps (Sleep d # evs) = d # sleeps evs"

definition is_2xx :: "response \<Rightarrow> bool" where
  "is_2xx resp = (200 \<le> status_code resp \<and> status_code resp < 300)"

fun most_recent_retry_after :: "(response \<Rightarrow> bool) \<Rightarrow> world \<Rightarrow> int option \<Rightarrow> int list \<Rightarrow> int option" where
  \<comment> \<open>The most recent integer \<open>Retry-After\<close> among the responses of the given attempts that
      \<open>counts\<close> admits, starting from \<open>seen\<close>.\<close>
  "most_recent_retry_after counts w seen [] = seen"
| "most_recent_retry_after counts w seen (k # ks) =
     most_recent_retry_after counts w
       (case session_get w k of
          RequestException ename emsg \<Rightarrow> seen
        | Response resp \<Rightarrow>
            if counts resp
            then (case retry_after_seconds (dict_or_none (resp_headers resp)) of
                    None \<Rightarrow> seen
                  | Some n \<Rightarrow> Some n)
            else seen)
       ks"

definition claimed_last_retry_after :: "world \<Rightarrow> int list \<Rightarrow> int option" where
  \<comment> \<open>Observed across all attempts.\<close>
  "claimed_last_retry_after w ks = most_recent_retry_after (\<lambda>resp. True) w None ks"

definition failures_last_retry_after :: "world \<Rightarrow> int list \<Rightarrow> int option" where
  \<comment> \<open>Observed on the responses outside \<open>[200, 300)\<close>.\<close>
  "failures_last_retry_after w ks = most_recent_retry_after (\<lambda>resp. \<not> is_2xx resp) w None ks"

definition wait_after :: "RetryConfig \<Rightarrow> world \<Rightarrow> int \<Rightarrow> (py_exception + real) option" where
  \<comment> \<open>The wait the loop computes after the request of attempt \<open>k\<close>; \<open>None\<close> when the outcome of
      that request ends the call instead.\<close>
  "wait_after retry w k =
     (case session_get w k of
        RequestException ename emsg \<Rightarrow>
          if k \<ge> max_attempts retry then None else Some (network_wait retry w k)
      | Response resp \<Rightarrow>
          if is_2xx resp then None
          else if status_code resp \<in> set (retry_statuses retry) \<and> k < max_attempts retry
          then Some (retry_wait retry w resp k)
          else None)"

definition raises_after :: "RetryConfig \<Rightarrow> world \<Rightarrow> int \<Rightarrow> py_exception option" where
  \<comment> \<open>The exception that computing the wait after attempt \<open>k\<close>, or sleeping for it, raises.\<close>
  "raises_after retry w k =
     (case wait_after retry w k of
        None \<Rightarrow> None
      | Some (Inl e) \<Rightarrow> Some e
      | Some (Inr wait_s) \<Rightarrow> time_sleep wait_s)"

definition claimed_reset_wait :: "real \<Rightarrow> int \<Rightarrow> real" where
  \<comment> \<open>\<open>max(0, reset_epoch - now)\<close>\<close>
  "claimed_reset_wait now reset_epoch = max 0 (of_int reset_epoch - now)"

definition whole_reset_wait :: "real \<Rightarrow> int \<Rightarrow> int" where
  \<comment> \<open>The same in whole seconds, the fraction cut off.\<close>
  "whole_reset_wait now reset_epoch = max 0 (py_trunc (of_int reset_epoch - now))"

definition at_least :: "real \<Rightarrow> int option \<Rightarrow> real" where
  \<comment> \<open>A wait raised to at least a number of seconds, when there is one.\<close>
  "at_least wait_s secs = (case secs of None \<Rightarrow> wait_s | Some n \<Rightarrow> max wait_s (of_int n))"

definition float_fits :: "int option \<Rightarrow> bool" where
  \<comment> \<open>An integer, when there is one, is within what \<open>float\<close> converts.\<close>
  "float_fits secs = (case secs of None \<Rightarrow> True | Some n \<Rightarrow> \<bar>n\<bar> < 2 ^ 1024 - 2 ^ 970)"

subsection \<open>Worlds to run the fetch in\<close>

definition answers :: "response \<Rightarrow> world" where
  \<comment> \<open>Every request gets the same response; the clock stands at 1000.5, the draw is 0.5.\<close>
  "answers resp =
     \<lparr>session_get = (\<lambda>k. Response resp), time_time = (\<lambda>k. 1000.5), random_random = (\<lambda>k. 0.5)\<rparr>"

definition null_body :: response where
  "null_body = \<lparr>status_code = 200, resp_headers = [(''Content-Type'', ''application/json'')],
                 resp_json = Inr PNone, resp_text = Some ''null''\<rparr>"

definition ok_with_retry_after :: response where
  "ok_with_retry_after = \<lparr>status_code = 200, resp_headers = [(''Retry-After'', ''7'')],
                           resp_json = Inr (PInt 1), resp_text = Some ''1''\<rparr>"

definition accepted :: response where
  "accepted = \<lparr>status_code = 202, resp_headers = [(''Content-Type'', ''application/json'')],
                resp_json = Inr (PDict []), resp_text = Some ''{}''\<rparr>"

definition not_json :: response where
  "not_json = \<lparr>status_code = 200, resp_headers = [(''Content-Type'', ''text/html'')],
                resp_json = Inl ''Expecting value: line 1 column 1 (char 0)'',
                resp_text = Some ''<html>''\<rparr>"

definition rate_limited :: response where
  "rate_limited =
     \<lparr>status_code = 503,
      resp_headers = [(''retry-after'', ''5''), (''X-RateLimit-Remaining'', ''0''),
                      (''X-RateLimit-Reset'', ''1100'')],
      resp_json = Inl ''Expecting value'', resp_text = Some ''busy''\<rparr>"

definition not_found :: response where
  "not_found = \<lparr>status_code = 404, resp_headers = [(''Content-Type'', ''application/json'')],
                 resp_json = Inr (PDict []), resp_text = Some ''{}''\<rparr>"


definition busy_then :: "response \<Rightarrow> world" where
  \<comment> \<open>Two rate-limited answers, then the given one; the clock stands at 1000.\<close>
  "busy_then resp =
     \<lparr>session_get = (\<lambda>k. if k < 3 then Response rate_limited else Response resp),
      time_time = (\<lambda>k. 1000), random_random = (\<lambda>k. 0.5)\<rparr>"

definition one_attempt :: RetryConfig where
  "one_attempt = default_RetryConfig\<lparr>max_attempts := 1\<rparr>"

definition retry_accepted :: RetryConfig where
  "retry_accepted = \<lparr>max_attempts = 1, backoff_base_s = 0.5, backoff_cap_s = 60,
                      retry_statuses = [202, 429, 503]\<rparr>"


subsection \<open>Equality of Python values, and the values json gives back unchanged\<close>

text \<open>
  \<open>py_eq a b\<close> is Python's \<open>a == b\<close>: numbers compare by value, \<open>bool\<close> being a kind of
  \<open>int\<close>; lists and tuples compare item by item and a list never equals a tuple; two
  dicts are equal when they have the same number of items and every key of the first has
  an equal value in the second, whatever the order of insertion; objects compare by
  identity.
\<close>

fun num_value :: "pyval \<Rightarrow> real option" where
  "num_value (PBool b) = Some (if b then 1 else 0)"
| "num_value (PInt i) = Some (of_int i)"
| "num_value (PFloat x) = Some x"
| "num_value v = None"

fun py_eq :: "pyval \<Rightarrow> pyval \<Rightarrow> bool"
  and py_eq_items :: "pyval list \<Rightarrow> pyval list \<Rightarrow> bool"
  and py_eq_values :: "(string \<times> pyval) list \<Rightarrow> (string \<times> pyval) list \<Rightarrow> bool" where
  "py_eq PNone b = (b = PNone)"
| "py_eq (PBool x) b = (num_value b = Some (if x then 1 else 0))"
| "py_eq (PInt i) b = (num_value b = Some (of_int i))"
| "py_eq (PFloat x) b = (num_value b = Some x)"
| "py_eq (PStr s) b = (b = PStr s)"
| "py_eq (PList xs) b = (case b of PList ys \<Rightarrow> py_eq_items xs ys | _ \<Rightarrow> False)"
| "py_eq (PTuple xs) b = (case b of PTuple ys \<Rightarrow> py_eq_items xs ys | _ \<Rightarrow> False)"
| "py_eq (PDict kvs) b =
     (case b of PDict kws \<Rightarrow> length kvs = length kws \<and> py_eq_values kvs kws | _ \<Rightarrow> False)"
| "py_eq (PObject i) b = (b = PObject i)"
| "py_eq_items [] ys = (ys = [])"
| "py_eq_items (x # xs) ys = (case ys of [] \<Rightarrow> False | y # ys' \<Rightarrow> py_eq x y \<and> py_eq_items xs ys')"
| "py_eq_values [] kws = True"
| "py_eq_values ((k, v) # kvs) kws =
     ((case map_of kws k of None \<Rightarrow> False | Some v' \<Rightarrow> py_eq v v') \<and> py_eq_values kvs kws)"

fun json_native :: "pyval \<Rightarrow> bool" where
  \<comment> \<open>Built from \<open>None\<close>, booleans, numbers, strings, lists and dicts only, the keys of a dict
      all different (as they are in any dict).\<close>
  "json_native (PList xs) = list_all json_native xs"
| "json_native (PTuple xs) = False"
| "json_native (PDict kvs) = (distinct (map fst kvs) \<and> list_all (\<lambda>(k, v). json_native v) kvs)"
| "json_native (PObject i) = False"
| "json_native v = True"

subsection \<open>Files and faults to run the writers in\<close>

definition no_faults :: faults where
  "no_faults = \<lparr>mkdir_raises = False, open_raises = False, write_raises = False,
                 raises_at_newline = False, replace_raises = False, exists_raises = False,
                 unlink_raises = False\<rparr>"

definition rename_fails :: faults where
  "rename_fails = no_faults\<lparr>replace_raises := True\<rparr>"

definition rename_and_unlink_fail :: faults where
  "rename_and_unlink_fail = no_faults\<lparr>replace_raises := True, unlink_raises := True\<rparr>"



definition index_json :: path where
  "index_json = \<lparr>parent = [''components'', ''registry''], name = ''index.json''\<rparr>"

definition index_tmp :: path where
  "index_tmp = \<lparr>parent = [''components'', ''registry''], name = ''index.json.tmp.4242''\<rparr>"

definition old_document :: json where
  "old_document = JObject [(''version'', JInt 1)]"

definition old_files :: filesystem where
  "old_files = (\<lambda>p. if p = index_json then Some (Document old_document) else None)"

definition new_value :: pyval where
  "new_value = PDict [(''version'', PInt 2), (''components'', PList [PStr ''a'', PNone])]"

definition new_document :: json where
  "new_document = JObject [(''components'', JArray [JString ''a'', JNull]), (''version'', JInt 2)]"

definition a_pair :: pyval where
  "a_pair = PTuple [PInt 1, PInt 2]"


section \<open>Token resolution\<close>

lemma first_token_strip: "first_token env ks = map_option py_strip (first_nonblank env ks)"
  by (induction ks) (auto split: option.splits)

lemma first_token_append:
  "first_token env (as @ bs) =
     (case first_token env as of None \<Rightarrow> first_token env bs | Some v \<Rightarrow> Some v)"
  by (induction as) (auto split: option.splits)

lemma first_token_mem:
  "first_token env ks = None \<Longrightarrow> k \<in> set ks \<Longrightarrow> first_token env [k] = None"
  by (induction ks) (auto split: option.splits if_splits)

lemma first_token_dedup_from:
  "\<forall>k \<in> set seen. first_token env [k] = None \<Longrightarrow>
     first_token env (dedup_from seen ks) = first_token env ks"
proof (induction ks arbitrary: seen)
  case Nil
  then show ?case by simp
next
  case (Cons k ks)
  show ?case
  proof (cases "k \<in> set seen")
    case True
    with Cons.prems have "first_token env [k] = None" by blast
    with True Cons show ?thesis by (auto split: option.splits if_splits)
  next
    case False
    show ?thesis
    proof (cases "first_token env [k]")
      case None
      with Cons.prems have "\<forall>k' \<in> set (k # seen). first_token env [k'] = None" by simp
      from Cons.IH [OF this] None False show ?thesis
        by (auto split: option.splits if_splits)
    next
      case (Some v)
      with False show ?thesis by (auto split: option.splits if_splits)
    qed
  qed
qed

lemma add_extras_eq:
  "add_extras cs ks = cs @ filter (\<lambda>k. k \<noteq> []) (map py_strip ks)"
  by (induction ks arbitrary: cs) auto

lemma add_preferred_eq:
  "add_preferred p = filter (\<lambda>k. k \<noteq> []) (map py_strip [p])"
  by (auto simp: add_preferred_def py_strip_def)

lemma first_token_add_defaults:
  "first_token env (add_defaults cs ds) = first_token env (cs @ ds)"
proof (induction ds arbitrary: cs)
  case Nil
  then show ?case by simp
next
  case (Cons d ds)
  show ?case
  proof (cases "d \<in> set cs")
    case True
    have "first_token env (cs @ d # ds) = first_token env (cs @ ds)"
    proof (cases "first_token env cs")
      case None
      from first_token_mem [OF None True] have "first_token env [d] = None" .
      then have "first_token env (d # ds) = first_token env ds"
        by (auto split: option.splits if_splits)
      with None show ?thesis by (simp add: first_token_append)
    next
      case (Some v)
      then show ?thesis by (simp add: first_token_append)
    qed
    with True Cons.IH [of cs] show ?thesis by simp
  next
    case False
    with Cons.IH [of "cs @ [d]"] show ?thesis by simp
  qed
qed

lemma token_candidates_first:
  "first_token env (token_candidates p xs) = first_token env (candidate_names p xs)"
proof -
  have "first_token env (candidate_names p xs)
      = first_token env (filter (\<lambda>k. k \<noteq> []) (map py_strip (p # xs)) @ DEFAULT_GITHUB_TOKEN_ENVS)"
    unfolding candidate_names_def by (rule first_token_dedup_from) simp
  moreover have "add_extras (add_preferred p) xs = filter (\<lambda>k. k \<noteq> []) (map py_strip (p # xs))"
    by (simp add: add_extras_eq add_preferred_eq)
  ultimately show ?thesis
    by (simp add: token_candidates_def first_token_add_defaults)
qed

text \<open>
  Claim C2, as the code has it. For every environment, preferred name and extra names,
  \<open>get_github_token\<close> returns the trimmed value of the first environment variable, in the
  order preferred, extras, defaults with every name kept at its first occurrence, whose
  trimmed value is not empty, and \<open>None\<close> when there is none. With \<open>GH_TOKEN\<close> empty,
  \<open>GITHUB_TOKEN\<close> set to \<open>abc\<close>, \<open>GH_API_TOKEN\<close> unset or blank and the default arguments
  it returns \<open>abc\<close>.
\<close>

theorem get_github_token_trimmed:
  "get_github_token env preferred_env extra_envs
     = map_option py_strip (claimed_token env preferred_env extra_envs)
   \<and> (env ''GH_TOKEN'' = Some '''' \<longrightarrow> env ''GITHUB_TOKEN'' = Some ''abc'' \<longrightarrow>
        (case env ''GH_API_TOKEN'' of None \<Rightarrow> True | Some v \<Rightarrow> py_strip v = []) \<longrightarrow>
        get_github_token env ''GH_TOKEN'' [] = Some ''abc'')"
proof
  show "get_github_token env preferred_env extra_envs
     = map_option py_strip (claimed_token env preferred_env extra_envs)"
    by (simp add: get_github_token_def claimed_token_def token_candidates_first
        first_token_strip [symmetric])
next
  have strip: "py_strip ''abc'' = ''abc''" "py_strip '''' = ''''" 
    by (simp_all add: py_strip_def is_space_def)
  have cands: "token_candidates ''GH_TOKEN'' [] = [''GH_TOKEN'', ''GH_API_TOKEN'', ''GITHUB_TOKEN'']"
    by code_simp
  show "env ''GH_TOKEN'' = Some '''' \<longrightarrow> env ''GITHUB_TOKEN'' = Some ''abc'' \<longrightarrow>
        (case env ''GH_API_TOKEN'' of None \<Rightarrow> True | Some v \<Rightarrow> py_strip v = []) \<longrightarrow>
        get_github_token env ''GH_TOKEN'' [] = Some ''abc''"
    by (auto simp: get_github_token_def cands strip split: option.splits)
qed

theorem get_github_token_trimmed_witness:
  "env_blank_then_abc ''GH_TOKEN'' = Some '''' \<and> env_blank_then_abc ''GITHUB_TOKEN'' = Some ''abc''
   \<and> env_blank_then_abc ''GH_API_TOKEN'' = None
   \<and> get_github_token env_blank_then_abc ''GH_TOKEN'' [] = Some ''abc''"
  using get_github_token_trimmed [of env_blank_then_abc "''GH_TOKEN''" "[]", THEN conjunct2]
  by (simp add: env_blank_then_abc_def)

text \<open>
  The claim as stated promises the value of the variable. With \<open>GH_TOKEN\<close> set to
  \<open>abc\<close> between two spaces, the value is the padded string and the code returns the
  trimmed one.
\<close>

theorem get_github_token_raw_value_counterexample:
  "env_padded ''GH_TOKEN'' = Some '' abc ''
   \<and> claimed_token env_padded ''GH_TOKEN'' [] = Some '' abc ''
   \<and> get_github_token env_padded ''GH_TOKEN'' [] = Some ''abc''
   \<and> get_github_token env_padded ''GH_TOKEN'' [] \<noteq> claimed_token env_padded ''GH_TOKEN'' []"
  unfolding env_padded_def by code_simp


section \<open>The retrying fetch\<close>

subsection \<open>Steps of the loop\<close>

lemma fst_then_events [simp]: "fst (then_events evs x) = fst x"
  by (simp add: then_events_def)

lemma snd_then_events [simp]: "snd (then_events evs x) = evs @ snd x"
  by (simp add: then_events_def)

lemma sleep_then_cases:
  "(\<exists>e. sleep_then a wt rest = (Raise e, [Get a])
        \<and> (wt = Inl e \<or> (\<exists>d. wt = Inr d \<and> time_sleep d = Some e)))
   \<or> (\<exists>d. wt = Inr d \<and> time_sleep d = None
          \<and> sleep_then a wt rest = then_events [Get a, Sleep d] rest)"
  by (auto simp: sleep_then_def split: sum.splits option.splits)

lemma result_invariant_cases:
  "result_invariant (network_failure ename emsg k l)"
  "result_invariant (success_path resp k l)"
  "result_invariant (final_failure resp k l)"
  by (simp_all add: result_invariant_def network_failure_def success_path_def final_failure_def
      Let_def split: sum.splits)

lemma attempts_cases [simp]:
  "attempts (network_failure ename emsg k l) = k"
  "attempts (success_path resp k l) = k"
  "attempts (final_failure resp k l) = k"
  by (simp_all add: network_failure_def success_path_def final_failure_def Let_def split: sum.splits)

lemma last_retry_after_cases [simp]:
  "last_retry_after_s (network_failure ename emsg k l) = l"
  "last_retry_after_s (success_path resp k l) = l"
  "last_retry_after_s (final_failure resp k l)
     = (case retry_after_seconds (dict_or_none (resp_headers resp)) of None \<Rightarrow> l | Some n \<Rightarrow> Some n)"
  by (simp_all add: network_failure_def success_path_def final_failure_def Let_def split: sum.splits)

lemma fetch_loop_network_step:
  "session_get w a = RequestException ename emsg \<Longrightarrow> \<not> max_attempts retry \<le> a \<Longrightarrow>
   fetch_loop retry w l (a # ks)
     = sleep_then a (network_wait retry w a) (fetch_loop retry w l ks)"
  by simp

lemma fetch_loop_network_final_step:
  "session_get w a = RequestException ename emsg \<Longrightarrow> max_attempts retry \<le> a \<Longrightarrow>
   fetch_loop retry w l (a # ks) = (Return (network_failure ename emsg a l), [Get a])"
  by simp

lemma fetch_loop_retry_step:
  "session_get w a = Response resp \<Longrightarrow>
   \<not> (200 \<le> status_code resp \<and> status_code resp < 300) \<Longrightarrow>
   status_code resp \<in> set (retry_statuses retry) \<Longrightarrow> a < max_attempts retry \<Longrightarrow>
   fetch_loop retry w l (a # ks)
     = sleep_then a (retry_wait retry w resp a)
         (fetch_loop retry w
            (case retry_after_seconds (dict_or_none (resp_headers resp)) of
               None \<Rightarrow> l | Some n \<Rightarrow> Some n) ks)"
  by auto

lemma fetch_loop_final_step:
  "session_get w a = Response resp \<Longrightarrow>
   \<not> (200 \<le> status_code resp \<and> status_code resp < 300) \<Longrightarrow>
   \<not> (status_code resp \<in> set (retry_statuses retry) \<and> a < max_attempts retry) \<Longrightarrow>
   fetch_loop retry w l (a # ks) = (Return (final_failure resp a l), [Get a])"
  by auto

lemma fetch_loop_2xx_step:
  "session_get w a = Response resp \<Longrightarrow>
   200 \<le> status_code resp \<and> status_code resp < 300 \<Longrightarrow>
   fetch_loop retry w l (a # ks) = (Return (success_path resp a l), [Get a])"
  by auto

declare fetch_loop.simps(2) [simp del]

text \<open>
  One turn of the loop: it ends the call at this attempt, by a \<open>return\<close> or by an exception
  of the wait, or it sleeps and goes on with the attempts left.
\<close>

lemma fetch_loop_turn:
  "(\<exists>r. fetch_loop retry w l (a # ks) = (Return r, [Get a]) \<and> wait_after retry w a = None
        \<and> attempts r = a \<and> result_invariant r
        \<and> last_retry_after_s r
            = most_recent_retry_after (\<lambda>resp. \<not> is_2xx resp) w l [a])
   \<or> (\<exists>e. fetch_loop retry w l (a # ks) = (Raise e, [Get a]) \<and> raises_after retry w a = Some e)
   \<or> (\<exists>d l'. fetch_loop retry w l (a # ks)
                 = then_events [Get a, Sleep d] (fetch_loop retry w l' ks)
              \<and> wait_after retry w a = Some (Inr d) \<and> raises_after retry w a = None
              \<and> a < max_attempts retry
              \<and> l' = most_recent_retry_after (\<lambda>resp. \<not> is_2xx resp) w l [a])"
proof (cases "session_get w a")
  case (RequestException ename emsg)
  show ?thesis
  proof (cases "max_attempts retry \<le> a")
    case True
    from fetch_loop_network_final_step [OF RequestException True, of l ks] True RequestException
    show ?thesis
      by (simp add: wait_after_def result_invariant_cases)
  next
    case False
    note step = fetch_loop_network_step [OF RequestException False, of l ks]
    from False RequestException
    have wa: "wait_after retry w a = Some (network_wait retry w a)"
      by (simp add: wait_after_def)
    from sleep_then_cases [of a "network_wait retry w a" "fetch_loop retry w l ks"]
    consider (raises) e
        where "sleep_then a (network_wait retry w a) (fetch_loop retry w l ks) = (Raise e, [Get a])"
          and "network_wait retry w a = Inl e
               \<or> (\<exists>d. network_wait retry w a = Inr d \<and> time_sleep d = Some e)"
      | (sleeps) d
        where "network_wait retry w a = Inr d" and "time_sleep d = None"
          and "sleep_then a (network_wait retry w a) (fetch_loop retry w l ks)
               = then_events [Get a, Sleep d] (fetch_loop retry w l ks)"
      by blast
    then show ?thesis
    proof cases
      case raises
      with step wa show ?thesis
        by (auto simp: raises_after_def)
    next
      case sleeps
      with step wa False RequestException show ?thesis
        by (auto simp: raises_after_def)
    qed
  qed
next
  case (Response resp)
  show ?thesis
  proof (cases "200 \<le> status_code resp \<and> status_code resp < 300")
    case True
    from fetch_loop_2xx_step [OF Response True, of retry l ks] True Response
    show ?thesis
      by (simp add: wait_after_def is_2xx_def result_invariant_cases)
  next
    case no2xx: False
    then have n2: "\<not> is_2xx resp" by (simp add: is_2xx_def)
    show ?thesis
    proof (cases "status_code resp \<in> set (retry_statuses retry) \<and> a < max_attempts retry")
      case False
      from fetch_loop_final_step [OF Response no2xx False, of l ks] False Response n2
      show ?thesis
        by (auto simp: wait_after_def result_invariant_cases)
    next
      case True
      let ?l = "case retry_after_seconds (dict_or_none (resp_headers resp)) of
                  None \<Rightarrow> l | Some n \<Rightarrow> Some n"
      from True have step: "fetch_loop retry w l (a # ks)
          = sleep_then a (retry_wait retry w resp a) (fetch_loop retry w ?l ks)"
        using fetch_loop_retry_step [OF Response no2xx] by blast
      from True Response n2
      have wa: "wait_after retry w a = Some (retry_wait retry w resp a)"
        by (simp add: wait_after_def)
      from Response n2
      have l': "?l = most_recent_retry_after (\<lambda>resp. \<not> is_2xx resp) w l [a]"
        by simp
      from sleep_then_cases [of a "retry_wait retry w resp a" "fetch_loop retry w ?l ks"]
      consider (raises) e
          where "sleep_then a (retry_wait retry w resp a) (fetch_loop retry w ?l ks)
                 = (Raise e, [Get a])"
            and "retry_wait retry w resp a = Inl e
                 \<or> (\<exists>d. retry_wait retry w resp a = Inr d \<and> time_sleep d = Some e)"
        | (sleeps) d
          where "retry_wait retry w resp a = Inr d" and "time_sleep d = None"
            and "sleep_then a (retry_wait retry w resp a) (fetch_loop retry w ?l ks)
                 = then_events [Get a, Sleep d] (fetch_loop retry w ?l ks)"
        by blast
      then show ?thesis
      proof cases
        case raises
        with step wa show ?thesis
          by (auto simp: raises_after_def)
      next
        case sleeps
        with step wa True l' show ?thesis
          by (auto simp: raises_after_def)
      qed
    qed
  qed
qed

lemma requests_append [simp]: "requests (xs @ ys) = requests xs @ requests ys"
  by (induction xs rule: requests.induct) auto

lemma requests_nonempty: "requests tr \<noteq> [] \<Longrightarrow> tr \<noteq> []"
  by auto

lemma fetch_loop_return:
  "fetch_loop retry w l ks = (Return r, tr) \<Longrightarrow>
   \<exists>post. ks = requests tr @ post \<and> requests tr \<noteq> [] \<and> last (requests tr) = attempts r
      \<and> last tr = Get (attempts r) \<and> result_invariant r
      \<and> last_retry_after_s r
          = most_recent_retry_after (\<lambda>resp. \<not> is_2xx resp) w l (requests tr)"
proof (induction ks arbitrary: l tr)
  case Nil
  then show ?case by simp
next
  case (Cons a ks)
  from fetch_loop_turn [of retry w l a ks]
  consider (returns) r' where "fetch_loop retry w l (a # ks) = (Return r', [Get a])"
      "attempts r' = a" "result_invariant r'"
      "last_retry_after_s r' = most_recent_retry_after (\<lambda>resp. \<not> is_2xx resp) w l [a]"
    | (raises) e where "fetch_loop retry w l (a # ks) = (Raise e, [Get a])"
    | (sleeps) d l' where
      "fetch_loop retry w l (a # ks) = then_events [Get a, Sleep d] (fetch_loop retry w l' ks)"
      "l' = most_recent_retry_after (\<lambda>resp. \<not> is_2xx resp) w l [a]"
    by blast
  then show ?case
  proof cases
    case returns
    with Cons.prems show ?thesis by auto
  next
    case raises
    with Cons.prems show ?thesis by auto
  next
    case sleeps
    obtain e' tr' where rest: "fetch_loop retry w l' ks = (e', tr')"
      by (cases "fetch_loop retry w l' ks")
    with sleeps(1) Cons.prems have e': "e' = Return r" and tr: "tr = Get a # Sleep d # tr'"
      by (simp_all add: then_events_def)
    from rest e' have "fetch_loop retry w l' ks = (Return r, tr')" by simp
    from Cons.IH [OF this] obtain post
      where ks: "ks = requests tr' @ post"
        and ne: "requests tr' \<noteq> []"
        and la: "last (requests tr') = attempts r"
        and lt: "last tr' = Get (attempts r)"
        and inv: "result_invariant r"
        and ra: "last_retry_after_s r
                 = most_recent_retry_after (\<lambda>resp. \<not> is_2xx resp) w l' (requests tr')"
      by blast
    from ne have tne: "tr' \<noteq> []" by (rule requests_nonempty)
    have mr: "most_recent_retry_after (\<lambda>resp. \<not> is_2xx resp) w l (a # requests tr')
              = most_recent_retry_after (\<lambda>resp. \<not> is_2xx resp) w l' (requests tr')"
      using sleeps(2) by simp
    have "a # ks = requests tr @ post" using ks tr by simp
    moreover have "requests tr \<noteq> []" using tr by simp
    moreover have "last (requests tr) = attempts r" using tr ne la by simp
    moreover have "last tr = Get (attempts r)" using tr tne lt by simp
    moreover have "last_retry_after_s r
          = most_recent_retry_after (\<lambda>resp. \<not> is_2xx resp) w l (requests tr)"
      using tr ra mr by simp
    ultimately show ?thesis using inv by blast
  qed
qed

lemma fetch_loop_raise:
  "fetch_loop retry w l ks = (Raise e, tr) \<Longrightarrow>
   \<exists>post. ks = requests tr @ post \<and> requests tr \<noteq> []
      \<and> last tr = Get (last (requests tr))
      \<and> raises_after retry w (last (requests tr)) = Some e"
proof (induction ks arbitrary: l tr)
  case Nil
  then show ?case by simp
next
  case (Cons a ks)
  from fetch_loop_turn [of retry w l a ks]
  consider (returns) r' where "fetch_loop retry w l (a # ks) = (Return r', [Get a])"
    | (raises) e' where "fetch_loop retry w l (a # ks) = (Raise e', [Get a])"
        "raises_after retry w a = Some e'"
    | (sleeps) d l' where
      "fetch_loop retry w l (a # ks) = then_events [Get a, Sleep d] (fetch_loop retry w l' ks)"
    by blast
  then show ?case
  proof cases
    case returns
    with Cons.prems show ?thesis by auto
  next
    case raises
    with Cons.prems show ?thesis by auto
  next
    case sleeps
    obtain e' tr' where rest: "fetch_loop retry w l' ks = (e', tr')"
      by (cases "fetch_loop retry w l' ks")
    with sleeps(1) Cons.prems have e': "e' = Raise e" and tr: "tr = Get a # Sleep d # tr'"
      by (simp_all add: then_events_def)
    from rest e' have "fetch_loop retry w l' ks = (Raise e, tr')" by simp
    from Cons.IH [OF this] obtain post
      where ks: "ks = requests tr' @ post"
        and ne: "requests tr' \<noteq> []"
        and lt: "last tr' = Get (last (requests tr'))"
        and ex: "raises_after retry w (last (requests tr')) = Some e"
      by blast
    from ne have tne: "tr' \<noteq> []" by (rule requests_nonempty)
    have "a # ks = requests tr @ post" using ks tr by simp
    moreover have "requests tr \<noteq> []" using tr by simp
    moreover have "last (requests tr) = last (requests tr')" using tr ne by simp
    moreover have "last tr = last tr'" using tr tne by simp
    ultimately show ?thesis using lt ex by auto
  qed
qed

lemma fetch_loop_fall_through:
  "fst (fetch_loop retry w l ks) = Fall_through l' \<Longrightarrow> \<forall>k \<in> set ks. k < max_attempts retry"
proof (induction ks arbitrary: l)
  case Nil
  then show ?case by simp
next
  case (Cons a ks)
  from fetch_loop_turn [of retry w l a ks]
  consider (returns) r' where "fetch_loop retry w l (a # ks) = (Return r', [Get a])"
    | (raises) e' where "fetch_loop retry w l (a # ks) = (Raise e', [Get a])"
    | (sleeps) d l'' where
      "fetch_loop retry w l (a # ks) = then_events [Get a, Sleep d] (fetch_loop retry w l'' ks)"
      "a < max_attempts retry"
    by blast
  then show ?case
  proof cases
    case returns
    with Cons.prems show ?thesis by simp
  next
    case raises
    with Cons.prems show ?thesis by simp
  next
    case sleeps
    with Cons.prems have "fst (fetch_loop retry w l'' ks) = Fall_through l'" by simp
    from Cons.IH [OF this] sleeps(2) show ?thesis by simp
  qed
qed

lemma fetch_loop_no_raise:
  "\<forall>k \<in> set ks. raises_after retry w k = None \<Longrightarrow> fst (fetch_loop retry w l ks) \<noteq> Raise e"
proof
  assume all: "\<forall>k \<in> set ks. raises_after retry w k = None"
    and "fst (fetch_loop retry w l ks) = Raise e"
  then obtain tr where "fetch_loop retry w l ks = (Raise e, tr)"
    by (cases "fetch_loop retry w l ks") simp
  from fetch_loop_raise [OF this] obtain post
    where ks: "ks = requests tr @ post"
      and ne: "requests tr \<noteq> []"
      and ex: "raises_after retry w (last (requests tr)) = Some e"
    by blast
  from ne have "last (requests tr) \<in> set (requests tr)" by simp
  with ks have "last (requests tr) \<in> set ks"
    by (metis Un_iff set_append)
  with all ex show False by simp
qed

lemma last_upto: "i \<le> j \<Longrightarrow> last [i..j] = j"
  by (subst upto_rec2) simp_all

lemma upto_prefix:
  "[i..j] = pre @ post \<Longrightarrow> pre \<noteq> [] \<Longrightarrow> pre = [i..last pre]"
proof (induction pre arbitrary: i)
  case Nil
  then show ?case by simp
next
  case (Cons p ps)
  from Cons.prems(1) have ij: "i \<le> j"
    by (cases "i \<le> j") auto
  then have "[i..j] = i # [i + 1..j]" by (simp add: upto_rec1)
  with Cons.prems(1) have p: "p = i" and rest: "[i + 1..j] = ps @ post"
    by auto
  show ?case
  proof (cases "ps = []")
    case True
    with p show ?thesis by simp
  next
    case False
    from Cons.IH [OF rest False] have ps: "ps = [i + 1..last ps]" .
    from False have "last ps \<in> set ps" by simp
    with rest have "last ps \<in> set [i + 1..j]" by simp
    then have "i \<le> last ps" by simp
    then have "[i..last ps] = i # [i + 1..last ps]" by (simp add: upto_rec1)
    with ps p False show ?thesis by simp
  qed
qed

lemma upto_suffix:
  assumes "[i..j] = ks1 @ k # ks2"
  shows "ks2 = [k + 1..j]"
proof -
  have whole: "[i..j] = (ks1 @ [k]) @ ks2" using assms by simp
  have "ks1 @ [k] \<noteq> []" by simp
  from upto_prefix [OF whole this] have pre: "ks1 @ [k] = [i..k]" by simp
  have "k \<in> set [i..j]" using assms by simp
  then have "i \<le> k" "k \<le> j" by simp_all
  then have "[i..j] = [i..k] @ [k + 1..j]" by (rule upto_split2)
  with pre assms have "(ks1 @ [k]) @ ks2 = (ks1 @ [k]) @ [k + 1..j]" by simp
  then show ?thesis by (simp only: same_append_eq)
qed

text \<open>The whole call, from the loop over the attempts 1 to \<open>max(1, max_attempts)\<close>.\<close>

lemma fetch_json_loop:
  "(\<exists>r. fetch_loop retry w None [1..max 1 (max_attempts retry)]
            = (Return r, snd (fetch_json retry w))
         \<and> fst (fetch_json retry w) = Returns r)
   \<or> (\<exists>e. fetch_loop retry w None [1..max 1 (max_attempts retry)]
            = (Raise e, snd (fetch_json retry w))
         \<and> fst (fetch_json retry w) = Raises e)"
proof -
  let ?ks = "[1..max 1 (max_attempts retry)]"
  have last: "max_attempts retry \<le> last ?ks" by (simp add: last_upto)
  have "?ks \<noteq> []" by simp
  then have "last ?ks \<in> set ?ks" by (rule last_in_set)
  have no_fall: "fst (fetch_loop retry w None ?ks) \<noteq> Fall_through l'" for l'
  proof
    assume "fst (fetch_loop retry w None ?ks) = Fall_through l'"
    from fetch_loop_fall_through [OF this] \<open>last ?ks \<in> set ?ks\<close>
    have "last ?ks < max_attempts retry" by blast
    with last show False by simp
  qed
  show ?thesis
  proof (cases "fetch_loop retry w None ?ks")
    case (Pair e tr)
    with no_fall show ?thesis
      by (cases e) (auto simp: fetch_json_def)
  qed
qed

lemma fetch_json_returns:
  assumes "fetch_json retry w = (Returns r, tr)"
  shows "fetch_loop retry w None [1..max 1 (max_attempts retry)] = (Return r, tr)"
  using fetch_json_loop [of retry w] assms by auto


lemma fetch_json_requests:
  assumes "fetch_json retry w = (Returns r, tr)"
  shows "requests tr = [1..attempts r]"
proof -
  let ?ks = "[1..max 1 (max_attempts retry)]"
  from fetch_json_returns [OF assms] have loop: "fetch_loop retry w None ?ks = (Return r, tr)" .
  from fetch_loop_return [OF this] obtain post
    where "?ks = requests tr @ post" "requests tr \<noteq> []" "last (requests tr) = attempts r"
    by auto
  with upto_prefix [of 1 "max 1 (max_attempts retry)" "requests tr" post]
  show ?thesis by simp
qed

lemma fetch_json_snd:
  "snd (fetch_json retry w) = snd (fetch_loop retry w None [1..max 1 (max_attempts retry)])"
  by (simp add: fetch_json_def split: prod.splits loop_exit.splits)

lemma fetch_json_fst_raise:
  "fst (fetch_loop retry w None [1..max 1 (max_attempts retry)]) = Raise e \<Longrightarrow>
   fst (fetch_json retry w) = Raises e"
  by (cases "fetch_loop retry w None [1..max 1 (max_attempts retry)]") (simp add: fetch_json_def)

lemma fetch_json_fst_return:
  "fst (fetch_loop retry w None [1..max 1 (max_attempts retry)]) = Return r \<Longrightarrow>
   fst (fetch_json retry w) = Returns r"
  by (cases "fetch_loop retry w None [1..max 1 (max_attempts retry)]") (simp add: fetch_json_def)

text \<open>Where the request of an attempt stands in the run of the loop.\<close>

lemma then_events_Nil [simp]: "then_events [] x = x"
  by (simp add: then_events_def)

lemma then_events_then_events [simp]:
  "then_events evs (then_events evs' x) = then_events (evs @ evs') x"
  by (simp add: then_events_def)

lemma fetch_loop_hd:
  "\<exists>tl. snd (fetch_loop retry w l (a # ks)) = Get a # tl"
  using fetch_loop_turn [of retry w l a ks] by auto

lemma fetch_loop_at:
  "Get k \<in> set (snd (fetch_loop retry w l ks)) \<Longrightarrow>
   \<exists>pre l' ks1 ks2. ks = ks1 @ k # ks2
      \<and> fetch_loop retry w l ks = then_events pre (fetch_loop retry w l' (k # ks2))"
proof (induction ks arbitrary: l)
  case Nil
  then show ?case by simp
next
  case (Cons a ks)
  show ?case
  proof (cases "k = a")
    case True
    have "a # ks = [] @ k # ks" using True by simp
    moreover have "fetch_loop retry w l (a # ks) = then_events [] (fetch_loop retry w l (k # ks))"
      using True by simp
    ultimately show ?thesis by blast
  next
    case False
    from fetch_loop_turn [of retry w l a ks]
    consider (ends) x where "fetch_loop retry w l (a # ks) = (x, [Get a])"
      | (sleeps) d l' where
        "fetch_loop retry w l (a # ks) = then_events [Get a, Sleep d] (fetch_loop retry w l' ks)"
      by blast
    then show ?thesis
    proof cases
      case ends
      with Cons.prems False show ?thesis by simp
    next
      case sleeps
      with Cons.prems False have "Get k \<in> set (snd (fetch_loop retry w l' ks))" by simp
      from Cons.IH [OF this] obtain pre l'' ks1 ks2
        where ks: "ks = ks1 @ k # ks2"
          and run: "fetch_loop retry w l' ks = then_events pre (fetch_loop retry w l'' (k # ks2))"
        by blast
      from ks have "a # ks = (a # ks1) @ k # ks2" by simp
      moreover from sleeps run
      have "fetch_loop retry w l (a # ks)
            = then_events ([Get a, Sleep d] @ pre) (fetch_loop retry w l'' (k # ks2))"
        by simp
      ultimately show ?thesis by blast
    qed
  qed
qed

subsection \<open>The wait before a retry\<close>

lemma py_trunc_of_int: "py_trunc (of_int n) = n"
  by (simp add: py_trunc_def)

lemma py_float_eq:
  "py_float n = (if float_fits (Some n) then Some (of_int n) else None)"
  by (simp add: py_float_def float_fits_def)

lemma raise_to_eq:
  "raise_to wait_s secs
     = (if float_fits secs then Inr (at_least wait_s secs) else Inl OverflowError)"
  by (cases secs) (simp_all add: raise_to_def py_float_eq at_least_def float_fits_def)

lemma backoff_eq:
  "backoff retry k
     = (if float_fits (Some (2 ^ nat k))
        then Inr (min (backoff_cap_s retry) (2 ^ nat k * backoff_base_s retry))
        else Inl OverflowError)"
  by (simp add: backoff_def py_float_eq)

lemma rate_limit_reset_wait_s_eq:
  "rate_limit_reset_wait_s now hdrs
     = (let reset = (case maybe_int (get_header hdrs ''X-RateLimit-Reset'') of
                       None \<Rightarrow> None
                     | Some reset_epoch \<Rightarrow>
                         if (case maybe_int (get_header hdrs ''X-RateLimit-Remaining'') of
                               None \<Rightarrow> False | Some n \<Rightarrow> 0 < n)
                         then None else Some reset_epoch)
        in if float_fits reset then Inr (map_option (whole_reset_wait now) reset)
           else Inl OverflowError)"
  by (simp add: rate_limit_reset_wait_s_def whole_reset_wait_def py_float_eq Let_def float_fits_def
      split: option.splits)

lemma retry_wait_eq:
  "retry_wait retry w resp k
     = (let ra = retry_after_seconds (dict_or_none (resp_headers resp));
            reset = (case maybe_int (get_header (dict_or_none (resp_headers resp))
                                       ''X-RateLimit-Reset'') of
                       None \<Rightarrow> None
                     | Some reset_epoch \<Rightarrow>
                         if (case maybe_int (get_header (dict_or_none (resp_headers resp))
                                               ''X-RateLimit-Remaining'') of
                               None \<Rightarrow> False | Some n \<Rightarrow> 0 < n)
                         then None else Some reset_epoch);
            rl_wait = map_option (whole_reset_wait (time_time w k)) reset
        in if float_fits reset \<and> float_fits (Some (2 ^ nat k)) \<and> float_fits ra
              \<and> float_fits rl_wait
           then Inr (at_least
                       (at_least (min (backoff_cap_s retry) (2 ^ nat k * backoff_base_s retry)) ra)
                       rl_wait
                     + random_random w k * 0.25)
           else Inl OverflowError)"
  unfolding retry_wait_def rate_limit_reset_wait_s_eq backoff_eq raise_to_eq
  by (simp add: Let_def)

lemma time_sleep_eq:
  "time_sleep d
     = (if 0 \<le> d \<and> d * 10 ^ 9 \<le> 2 ^ 63 - 1 then None
        else Some (if d < 0 \<and> - (2 ^ 63) \<le> d * 10 ^ 9 then ValueError else OverflowError))"
proof -
  have up: "(2 ^ 63 \<le> \<lceil>d * 10 ^ 9\<rceil>) = (2 ^ 63 - 1 < d * 10 ^ 9)"
  proof -
    have "(2 ^ 63 \<le> \<lceil>d * 10 ^ 9\<rceil>) = ((2 ^ 63 - 1 :: int) < \<lceil>d * 10 ^ 9\<rceil>)" by linarith
    also have "\<dots> = (of_int (2 ^ 63 - 1) < d * 10 ^ 9)" by (rule less_ceiling_iff)
    finally show ?thesis by simp
  qed
  have down: "(\<lfloor>d * 10 ^ 9\<rfloor> < - (2 ^ 63)) = (d * 10 ^ 9 < - (2 ^ 63))"
  proof -
    have "(\<lfloor>d * 10 ^ 9\<rfloor> < - (2 ^ 63)) = (d * 10 ^ 9 < of_int (- (2 ^ 63)))"
      by (rule floor_less_iff)
    then show ?thesis by simp
  qed
  have neg: "d < 0 \<Longrightarrow> \<not> 2 ^ 63 - 1 < d * 10 ^ 9"
  proof -
    assume "d < 0"
    then have "d * 10 ^ 9 < 0" by (simp add: mult_less_0_iff)
    then show ?thesis by simp
  qed
  show ?thesis
    unfolding time_sleep_def up down using neg by auto
qed

lemma fetch_loop_retry_at:
  assumes "Get k \<in> set (snd (fetch_json retry w))"
    and "session_get w k = Response resp"
    and "status_code resp \<in> set (retry_statuses retry)"
    and "\<not> (200 \<le> status_code resp \<and> status_code resp < 300)"
    and "k < max_attempts retry"
  shows "\<exists>pre rest tl. fetch_loop retry w None [1..max 1 (max_attempts retry)]
            = then_events pre (sleep_then k (retry_wait retry w resp k) rest)
          \<and> snd rest = Get (k + 1) # tl"
proof -
  let ?n = "max 1 (max_attempts retry)"
  from assms(1) have "Get k \<in> set (snd (fetch_loop retry w None [1..?n]))"
    by (simp add: fetch_json_snd)
  from fetch_loop_at [OF this] obtain pre l' ks1 ks2
    where split: "[1..?n] = ks1 @ k # ks2"
      and run: "fetch_loop retry w None [1..?n] = then_events pre (fetch_loop retry w l' (k # ks2))"
    by blast
  let ?l = "case retry_after_seconds (dict_or_none (resp_headers resp)) of
              None \<Rightarrow> l' | Some n \<Rightarrow> Some n"
  from fetch_loop_retry_step [OF assms(2) assms(4) assms(3) assms(5)]
  have step: "fetch_loop retry w l' (k # ks2)
      = sleep_then k (retry_wait retry w resp k) (fetch_loop retry w ?l ks2)" .
  from upto_suffix [OF split] have ks2: "ks2 = [k + 1..?n]" .
  from assms(5) have "k + 1 \<le> ?n" by simp
  with ks2 have "ks2 = (k + 1) # [k + 1 + 1..?n]" by (simp add: upto_rec1)
  with fetch_loop_hd [of retry w ?l "k + 1" "[k + 1 + 1..?n]"] obtain tl
    where "snd (fetch_loop retry w ?l ks2) = Get (k + 1) # tl" by auto
  with run step show ?thesis by metis
qed

subsection \<open>A header value too large for a float\<close>




lemma py_int_digit_limit:
  "py_int (CHR ''1'' # replicate 4300 (CHR ''1'')) = None"
  by (simp add: py_int_def is_digit_def int_max_str_digits_def)





subsection \<open>The claims about fetch\_json\<close>

text \<open>
  Claim C1, as the code has it. For every configuration and every world, a result that
  \<open>fetch_json\<close> returns has \<open>ok\<close> true if and only if \<open>error\<close> is \<open>None\<close>, \<open>data\<close> is \<open>None\<close>
  whenever \<open>ok\<close> is false, and \<open>attempts\<close> lies between 1 and \<open>max_attempts\<close> when that is at
  least 1.
\<close>

theorem fetch_json_result_invariant:
  assumes "fetch_json retry w = (Returns r, tr)"
  shows "(ok r = (error r = None))
   \<and> (ok r \<or> data r = PNone)
   \<and> (1 \<le> max_attempts retry \<longrightarrow> 1 \<le> attempts r \<and> attempts r \<le> max_attempts retry)"
proof -
  from fetch_loop_return [OF fetch_json_returns [OF assms]]
  obtain post where ks: "[1..max 1 (max_attempts retry)] = requests tr @ post"
    and ne: "requests tr \<noteq> []" and la: "last (requests tr) = attempts r"
    and inv: "result_invariant r"
    by blast
  from ne la have "attempts r \<in> set (requests tr)" by (metis last_in_set)
  with ks have "attempts r \<in> set [1..max 1 (max_attempts retry)]"
    by (metis Un_iff set_append)
  then have "1 \<le> attempts r" "attempts r \<le> max 1 (max_attempts retry)" by simp_all
  with inv show ?thesis
    by (auto simp: result_invariant_def)
qed

theorem fetch_json_result_invariant_witness:
  "\<exists>r tr. fetch_json default_RetryConfig (busy_then null_body) = (Returns r, tr)
      \<and> 1 \<le> max_attempts default_RetryConfig
      \<and> ok r \<and> error r = None \<and> attempts r = 3
      \<and> 1 \<le> attempts r \<and> attempts r \<le> max_attempts default_RetryConfig"
proof -
  have "fetch_json default_RetryConfig (busy_then null_body)
        = (Returns \<lparr>ok = True, status = Some 200, data = PNone,
                    headers = Some [(''Content-Type'', ''application/json'')], error = None,
                    attempts = 3, last_retry_after_s = Some 5\<rparr>,
           [Get 1, Sleep (801 / 8), Get 2, Sleep (801 / 8), Get 3])"
    by code_simp
  then obtain r tr
    where run: "fetch_json default_RetryConfig (busy_then null_body) = (Returns r, tr)"
      and k: "ok r" and a: "attempts r = 3"
    by simp
  have m: "1 \<le> max_attempts default_RetryConfig"
    by (simp add: default_RetryConfig_def)
  from fetch_json_result_invariant [OF run] k m
  have "error r = None \<and> 1 \<le> attempts r \<and> attempts r \<le> max_attempts default_RetryConfig"
    by blast
  with run k a m show ?thesis by blast
qed

text \<open>
  The claim as stated ties \<open>ok\<close> to \<open>data\<close> not being \<open>None\<close>. A 200 response whose body is
  the JSON text \<open>null\<close> parses to \<open>None\<close>: the result is \<open>ok\<close> with \<open>data\<close> \<open>None\<close>.
\<close>

theorem fetch_json_null_body_counterexample:
  "fetch_json default_RetryConfig (answers null_body)
     = (Returns \<lparr>ok = True, status = Some 200, data = PNone,
                 headers = Some [(''Content-Type'', ''application/json'')], error = None,
                 attempts = 1, last_retry_after_s = None\<rparr>, [Get 1])
   \<and> \<not> claimed_invariant \<lparr>ok = True, status = Some 200, data = PNone,
                 headers = Some [(''Content-Type'', ''application/json'')], error = None,
                 attempts = 1, last_retry_after_s = None\<rparr>"
  by code_simp

text \<open>
  Claim C3, as the code has it. When an attempt of \<open>fetch_json\<close> that is not the last
  receives a response with a status in \<open>retry_statuses\<close> and outside \<open>[200, 300)\<close>, the code
  computes a wait and calls \<open>time.sleep\<close> with it. The wait is the backoff
  \<open>min(backoff_cap_s, 2^attempt * backoff_base_s)\<close>, raised to at least the integer
  \<open>Retry-After\<close> when the response has one, raised further to at least the whole seconds of
  \<open>max(0, reset_epoch - now)\<close> when \<open>X-RateLimit-Reset\<close> is an integer and
  \<open>X-RateLimit-Remaining\<close> is not a positive integer, plus the jitter; computing it raises
  \<open>OverflowError\<close> instead when one of the integers it converts to a float (the reset epoch,
  \<open>2^attempt\<close>, the \<open>Retry-After\<close>, the whole seconds to the reset) is too large for one.

  When the wait is computed and lies between 0 and \<open>2^63 - 1\<close> nanoseconds, \<open>time.sleep\<close>
  takes it: the sleep comes right after the request, and the request of the next attempt
  right after the sleep. When computing the wait raises, or \<open>time.sleep\<close> does
  (\<open>ValueError\<close> for a negative wait, \<open>OverflowError\<close> for one whose nanoseconds do not fit
  64 bits), the call ends with that exception, the request being its last event.

  With \<open>Retry-After: 5\<close>, \<open>X-RateLimit-Remaining: 0\<close> and a reset exactly 100 seconds after
  \<open>now\<close>, a wait that is computed is at least 100 seconds, and it is computed whenever the
  attempt is below 1024 and the clock below \<open>2^1000\<close> in absolute value.
\<close>

theorem retry_sleep_duration:
  assumes "Get k \<in> set (snd (fetch_json retry w))"
    and "session_get w k = Response resp"
    and "status_code resp \<in> set (retry_statuses retry)"
    and "\<not> (200 \<le> status_code resp \<and> status_code resp < 300)"
    and "k < max_attempts retry"
  shows "(case retry_wait retry w resp k of
            Inl e \<Rightarrow> fst (fetch_json retry w) = Raises e
                     \<and> last (snd (fetch_json retry w)) = Get k
          | Inr d \<Rightarrow>
              if 0 \<le> d \<and> d * 10 ^ 9 \<le> 2 ^ 63 - 1
              then \<exists>pre post. snd (fetch_json retry w)
                                 = pre @ Get k # Sleep d # Get (k + 1) # post
              else fst (fetch_json retry w)
                     = Raises (if d < 0 \<and> - (2 ^ 63) \<le> d * 10 ^ 9 then ValueError
                               else OverflowError)
                   \<and> last (snd (fetch_json retry w)) = Get k)
       \<and> retry_wait retry w resp k
           = (let ra = retry_after_seconds (dict_or_none (resp_headers resp));
                  reset = (case maybe_int (get_header (dict_or_none (resp_headers resp))
                                             ''X-RateLimit-Reset'') of
                             None \<Rightarrow> None
                           | Some reset_epoch \<Rightarrow>
                               if (case maybe_int (get_header (dict_or_none (resp_headers resp))
                                                     ''X-RateLimit-Remaining'') of
                                     None \<Rightarrow> False | Some n \<Rightarrow> 0 < n)
                               then None else Some reset_epoch);
                  rl_wait = map_option (whole_reset_wait (time_time w k)) reset
              in if float_fits reset \<and> float_fits (Some (2 ^ nat k)) \<and> float_fits ra
                    \<and> float_fits rl_wait
                 then Inr (at_least
                             (at_least
                                (min (backoff_cap_s retry) (2 ^ nat k * backoff_base_s retry)) ra)
                             rl_wait
                           + random_random w k * 0.25)
                 else Inl OverflowError)
       \<and> (retry_after_seconds (dict_or_none (resp_headers resp)) = Some 5 \<longrightarrow>
          maybe_int (get_header (dict_or_none (resp_headers resp)) ''X-RateLimit-Remaining'') = Some 0 \<longrightarrow>
          (\<exists>reset. maybe_int (get_header (dict_or_none (resp_headers resp)) ''X-RateLimit-Reset'')
                      = Some reset
                   \<and> of_int reset = time_time w k + 100) \<longrightarrow>
          0 \<le> random_random w k \<longrightarrow>
          (\<forall>d. retry_wait retry w resp k = Inr d \<longrightarrow> 100 \<le> d)
          \<and> (k < 1024 \<longrightarrow> \<bar>time_time w k\<bar> < 2 ^ 1000 \<longrightarrow>
               (\<exists>d. retry_wait retry w resp k = Inr d)))"
proof (intro conjI)
  from fetch_loop_retry_at [OF assms] obtain pre rest tl
    where run: "fetch_loop retry w None [1..max 1 (max_attempts retry)]
                = then_events pre (sleep_then k (retry_wait retry w resp k) rest)"
      and rest: "snd rest = Get (k + 1) # tl"
    by blast
  show "case retry_wait retry w resp k of
            Inl e \<Rightarrow> fst (fetch_json retry w) = Raises e
                     \<and> last (snd (fetch_json retry w)) = Get k
          | Inr d \<Rightarrow>
              if 0 \<le> d \<and> d * 10 ^ 9 \<le> 2 ^ 63 - 1
              then \<exists>pre post. snd (fetch_json retry w)
                                 = pre @ Get k # Sleep d # Get (k + 1) # post
              else fst (fetch_json retry w)
                     = Raises (if d < 0 \<and> - (2 ^ 63) \<le> d * 10 ^ 9 then ValueError
                               else OverflowError)
                   \<and> last (snd (fetch_json retry w)) = Get k"
  proof (cases "retry_wait retry w resp k")
    case (Inl e)
    with run have "fetch_loop retry w None [1..max 1 (max_attempts retry)]
                   = (Raise e, pre @ [Get k])"
      by (simp add: sleep_then_def then_events_def)
    then have "fst (fetch_json retry w) = Raises e" "last (snd (fetch_json retry w)) = Get k"
      by (simp_all add: fetch_json_fst_raise fetch_json_snd)
    with Inl show ?thesis by simp
  next
    case (Inr d)
    show ?thesis
    proof (cases "time_sleep d")
      case (Some e)
      with Inr run have "fetch_loop retry w None [1..max 1 (max_attempts retry)]
                   = (Raise e, pre @ [Get k])"
        by (simp add: sleep_then_def then_events_def)
      then have "fst (fetch_json retry w) = Raises e" "last (snd (fetch_json retry w)) = Get k"
        by (simp_all add: fetch_json_fst_raise fetch_json_snd)
      moreover from Some
      have "\<not> (0 \<le> d \<and> d * 10 ^ 9 \<le> 2 ^ 63 - 1)"
        and "e = (if d < 0 \<and> - (2 ^ 63) \<le> d * 10 ^ 9 then ValueError else OverflowError)"
        by (simp_all add: time_sleep_eq split: if_splits)
      ultimately show ?thesis using Inr by auto
    next
      case None
      with Inr run rest have "snd (fetch_loop retry w None [1..max 1 (max_attempts retry)])
                   = pre @ Get k # Sleep d # Get (k + 1) # tl"
        by (simp add: sleep_then_def then_events_def)
      then have "\<exists>pre post. snd (fetch_json retry w) = pre @ Get k # Sleep d # Get (k + 1) # post"
        by (auto simp: fetch_json_snd)
      moreover from None have "0 \<le> d \<and> d * 10 ^ 9 \<le> 2 ^ 63 - 1"
        by (simp add: time_sleep_eq split: if_splits)
      ultimately show ?thesis using Inr by auto
    qed
  qed
next
  show "retry_wait retry w resp k
           = (let ra = retry_after_seconds (dict_or_none (resp_headers resp));
                  reset = (case maybe_int (get_header (dict_or_none (resp_headers resp))
                                             ''X-RateLimit-Reset'') of
                             None \<Rightarrow> None
                           | Some reset_epoch \<Rightarrow>
                               if (case maybe_int (get_header (dict_or_none (resp_headers resp))
                                                     ''X-RateLimit-Remaining'') of
                                     None \<Rightarrow> False | Some n \<Rightarrow> 0 < n)
                               then None else Some reset_epoch);
                  rl_wait = map_option (whole_reset_wait (time_time w k)) reset
              in if float_fits reset \<and> float_fits (Some (2 ^ nat k)) \<and> float_fits ra
                    \<and> float_fits rl_wait
                 then Inr (at_least
                             (at_least
                                (min (backoff_cap_s retry) (2 ^ nat k * backoff_base_s retry)) ra)
                             rl_wait
                           + random_random w k * 0.25)
                 else Inl OverflowError)"
    by (rule retry_wait_eq)
next
  show "retry_after_seconds (dict_or_none (resp_headers resp)) = Some 5 \<longrightarrow>
          maybe_int (get_header (dict_or_none (resp_headers resp)) ''X-RateLimit-Remaining'') = Some 0 \<longrightarrow>
          (\<exists>reset. maybe_int (get_header (dict_or_none (resp_headers resp)) ''X-RateLimit-Reset'')
                      = Some reset
                   \<and> of_int reset = time_time w k + 100) \<longrightarrow>
          0 \<le> random_random w k \<longrightarrow>
          (\<forall>d. retry_wait retry w resp k = Inr d \<longrightarrow> 100 \<le> d)
          \<and> (k < 1024 \<longrightarrow> \<bar>time_time w k\<bar> < 2 ^ 1000 \<longrightarrow>
               (\<exists>d. retry_wait retry w resp k = Inr d))"
  proof (intro impI)
    assume ra: "retry_after_seconds (dict_or_none (resp_headers resp)) = Some 5"
      and rem: "maybe_int (get_header (dict_or_none (resp_headers resp)) ''X-RateLimit-Remaining'') = Some 0"
      and "\<exists>reset. maybe_int (get_header (dict_or_none (resp_headers resp)) ''X-RateLimit-Reset'')
                      = Some reset
                   \<and> of_int reset = time_time w k + 100"
      and jit: "0 \<le> random_random w k"
    then obtain reset
      where rs: "maybe_int (get_header (dict_or_none (resp_headers resp)) ''X-RateLimit-Reset'') = Some reset"
        and eq: "of_int reset = time_time w k + 100" by blast
    from eq have "of_int reset - time_time w k = of_int 100" by simp
    then have "py_trunc (of_int reset - time_time w k) = 100"
      by (simp only: py_trunc_of_int)
    then have whole: "whole_reset_wait (time_time w k) reset = 100"
      by (simp add: whole_reset_wait_def)
    have five: "float_fits (Some 5)" and hundred: "float_fits (Some 100)"
      by (simp_all add: float_fits_def)
    let ?wait = "max (max (min (backoff_cap_s retry) (2 ^ nat k * backoff_base_s retry)) 5) 100
                 + random_random w k * 0.25"
    from ra rem rs whole five hundred
    have wait: "retry_wait retry w resp k
        = (if float_fits (Some reset) \<and> float_fits (Some (2 ^ nat k))
           then Inr ?wait else Inl OverflowError)"
      by (simp add: retry_wait_eq at_least_def)
    from jit have "100 \<le> ?wait" by simp
    with wait have always: "\<forall>d. retry_wait retry w resp k = Inr d \<longrightarrow> 100 \<le> d"
      by (simp split: if_splits)
    have fits: "\<exists>d. retry_wait retry w resp k = Inr d"
      if k: "k < 1024" and now: "\<bar>time_time w k\<bar> < 2 ^ 1000"
    proof -
      from k have "nat k \<le> 1023" by simp
      then have "(2::int) ^ nat k \<le> 2 ^ 1023" by (rule power_increasing) simp
      then have p: "float_fits (Some (2 ^ nat k))" by (simp add: float_fits_def)
      from eq now have "\<bar>(of_int reset :: real)\<bar> < 2 ^ 1000 + 100" by simp
      also have "(2 ^ 1000 + 100 :: real) \<le> 2 ^ 1001" by simp
      finally have "\<bar>(of_int reset :: real)\<bar> < of_int (2 ^ 1001)" by simp
      then have "\<bar>reset\<bar> < 2 ^ 1001" by (simp only: of_int_abs [symmetric] of_int_less_iff)
      then have "float_fits (Some reset)" by (simp add: float_fits_def)
      with p wait show ?thesis by simp
    qed
    from always fits
    show "(\<forall>d. retry_wait retry w resp k = Inr d \<longrightarrow> 100 \<le> d)
          \<and> (k < 1024 \<longrightarrow> \<bar>time_time w k\<bar> < 2 ^ 1000 \<longrightarrow>
               (\<exists>d. retry_wait retry w resp k = Inr d))"
      by blast
  qed
qed

theorem retry_sleep_duration_witness:
  "Get 1 \<in> set (snd (fetch_json default_RetryConfig (busy_then not_found)))
   \<and> session_get (busy_then not_found) 1 = Response rate_limited
   \<and> status_code rate_limited \<in> set (retry_statuses default_RetryConfig)
   \<and> \<not> (200 \<le> status_code rate_limited \<and> status_code rate_limited < 300)
   \<and> 1 < max_attempts default_RetryConfig
   \<and> retry_after_seconds (dict_or_none (resp_headers rate_limited)) = Some 5
   \<and> maybe_int (get_header (dict_or_none (resp_headers rate_limited)) ''X-RateLimit-Remaining'') = Some 0
   \<and> maybe_int (get_header (dict_or_none (resp_headers rate_limited)) ''X-RateLimit-Reset'') = Some 1100
   \<and> (of_int 1100 :: real) = time_time (busy_then not_found) 1 + 100
   \<and> 0 \<le> random_random (busy_then not_found) 1
   \<and> retry_wait default_RetryConfig (busy_then not_found) rate_limited 1 = Inr (801 / 8)
   \<and> (0 :: real) \<le> 801 / 8 \<and> (801 / 8 :: real) * 10 ^ 9 \<le> 2 ^ 63 - 1
   \<and> (\<exists>pre post. snd (fetch_json default_RetryConfig (busy_then not_found))
          = pre @ Get 1 # Sleep (801 / 8) # Get (1 + 1) # post)
   \<and> (100 :: real) \<le> 801 / 8"
proof -
  have run: "snd (fetch_json default_RetryConfig (busy_then not_found))
             = [Get 1, Sleep (801 / 8), Get 2, Sleep (801 / 8), Get 3]"
    by code_simp
  have a1: "Get 1 \<in> set (snd (fetch_json default_RetryConfig (busy_then not_found)))"
    by (simp add: run)
  have a2: "session_get (busy_then not_found) 1 = Response rate_limited"
    by (simp add: busy_then_def)
  have a3: "status_code rate_limited \<in> set (retry_statuses default_RetryConfig)"
    by (simp add: default_RetryConfig_def rate_limited_def)
  have a4: "\<not> (200 \<le> status_code rate_limited \<and> status_code rate_limited < 300)"
    by (simp add: rate_limited_def)
  have a5: "1 < max_attempts default_RetryConfig"
    by (simp add: default_RetryConfig_def)
  have h1: "retry_after_seconds (dict_or_none (resp_headers rate_limited)) = Some 5"
    by code_simp
  have h2: "maybe_int (get_header (dict_or_none (resp_headers rate_limited)) ''X-RateLimit-Remaining'') = Some 0"
    by code_simp
  have h3: "maybe_int (get_header (dict_or_none (resp_headers rate_limited)) ''X-RateLimit-Reset'') = Some 1100"
    by code_simp
  have h4: "(of_int 1100 :: real) = time_time (busy_then not_found) 1 + 100"
    by (simp add: busy_then_def)
  have h5: "0 \<le> random_random (busy_then not_found) 1"
    by (simp add: busy_then_def)
  have wt: "retry_wait default_RetryConfig (busy_then not_found) rate_limited 1 = Inr (801 / 8)"
    by code_simp
  have sl: "(0 :: real) \<le> 801 / 8 \<and> (801 / 8 :: real) * 10 ^ 9 \<le> 2 ^ 63 - 1"
    by simp
  from h3 h4 have h34: "\<exists>reset. maybe_int (get_header (dict_or_none (resp_headers rate_limited))
        ''X-RateLimit-Reset'') = Some reset \<and> of_int reset = time_time (busy_then not_found) 1 + 100"
    by blast
  note inst = retry_sleep_duration [OF a1 a2 a3 a4 a5]
  from inst [THEN conjunct1] wt sl
  have c1: "\<exists>pre post. snd (fetch_json default_RetryConfig (busy_then not_found))
          = pre @ Get 1 # Sleep (801 / 8) # Get (1 + 1) # post" by simp
  from inst [THEN conjunct2, THEN conjunct2] h1 h2 h34 h5
  have "\<forall>d. retry_wait default_RetryConfig (busy_then not_found) rate_limited 1 = Inr d
            \<longrightarrow> 100 \<le> d" by blast
  with wt have c3: "(100 :: real) \<le> 801 / 8" by blast
  from a1 a2 a3 a4 a5 h1 h2 h3 h4 h5 wt sl c1 c3 show ?thesis by blast
qed

text \<open>
  The claim as stated promises at least \<open>max(0, reset_epoch - now)\<close>. With the clock at
  1000.5 and the reset at 1100 the code waits 99 whole seconds and the jitter, less than
  the 99.5 seconds to the reset.
\<close>

theorem retry_sleep_fraction_counterexample:
  "session_get (answers rate_limited) 1 = Response rate_limited
   \<and> maybe_int (get_header (dict_or_none (resp_headers rate_limited)) ''X-RateLimit-Remaining'') = Some 0
   \<and> maybe_int (get_header (dict_or_none (resp_headers rate_limited)) ''X-RateLimit-Reset'') = Some 1100
   \<and> time_time (answers rate_limited) 1 = 1000.5
   \<and> take 3 (snd (fetch_json default_RetryConfig (answers rate_limited)))
       = [Get 1, Sleep (793 / 8), Get 2]
   \<and> (793 / 8 :: real) < claimed_reset_wait (time_time (answers rate_limited) 1) 1100"
  by code_simp

text \<open>
  Claim C4, as the code has it. The \<open>last_retry_after_s\<close> of a result that \<open>fetch_json\<close>
  returns is the most recent integer \<open>Retry-After\<close> among the responses with a status
  outside \<open>[200, 300)\<close> that the attempts of the call received, whether or not the last of
  them carries the header.
\<close>

theorem last_retry_after_of_failures:
  assumes "fetch_json retry w = (Returns r, tr)"
  shows "last_retry_after_s r = failures_last_retry_after w [1..attempts r]"
proof -
  from fetch_loop_return [OF fetch_json_returns [OF assms]]
  have "last_retry_after_s r = most_recent_retry_after (\<lambda>resp. \<not> is_2xx resp) w None (requests tr)"
    by blast
  with fetch_json_requests [OF assms] show ?thesis
    by (simp add: failures_last_retry_after_def)
qed

theorem last_retry_after_of_failures_witness:
  "\<exists>r tr. fetch_json default_RetryConfig (busy_then not_found) = (Returns r, tr)
      \<and> attempts r = 3
      \<and> retry_after_seconds (dict_or_none (resp_headers not_found)) = None
      \<and> failures_last_retry_after (busy_then not_found) [1..3] = Some 5
      \<and> last_retry_after_s r = Some 5"
proof -
  have "fetch_json default_RetryConfig (busy_then not_found)
        = (Returns \<lparr>ok = False, status = Some 404, data = PNone,
                    headers = Some [(''Content-Type'', ''application/json'')],
                    error = Some ''HTTP 404: {}'',
                    attempts = 3, last_retry_after_s = Some 5\<rparr>,
           [Get 1, Sleep (801 / 8), Get 2, Sleep (801 / 8), Get 3])"
    by code_simp
  then obtain r tr
    where run: "fetch_json default_RetryConfig (busy_then not_found) = (Returns r, tr)"
      and a: "attempts r = 3"
    by simp
  have b: "retry_after_seconds (dict_or_none (resp_headers not_found)) = None"
    by code_simp
  have c: "failures_last_retry_after (busy_then not_found) [1..3] = Some 5"
    by code_simp
  from last_retry_after_of_failures [OF run] a c
  have "last_retry_after_s r = Some 5" by simp
  with run a b c show ?thesis by blast
qed

text \<open>
  The claim as stated counts every response. A 200 response carrying \<open>Retry-After: 7\<close> is
  returned with \<open>last_retry_after_s\<close> \<open>None\<close>: the success path does not read the header.
\<close>

theorem last_retry_after_2xx_counterexample:
  "fetch_json default_RetryConfig (answers ok_with_retry_after)
     = (Returns \<lparr>ok = True, status = Some 200, data = PInt 1,
                 headers = Some [(''Retry-After'', ''7'')], error = None,
                 attempts = 1, last_retry_after_s = None\<rparr>, [Get 1])
   \<and> session_get (answers ok_with_retry_after) 1 = Response ok_with_retry_after
   \<and> retry_after_seconds (dict_or_none (resp_headers ok_with_retry_after)) = Some 7
   \<and> claimed_last_retry_after (answers ok_with_retry_after) [1..1] = Some 7"
  by code_simp

text \<open>
  Claim C5, as the code has it. With \<open>max_attempts = 1\<close> and a response to the only attempt
  whose status is in \<open>retry_statuses\<close> and outside \<open>[200, 300)\<close>, the call makes that one
  request and never sleeps, and it returns a failure: not \<open>ok\<close>, with that status, and
  an \<open>error\<close> that starts with \<open>HTTP\<close> and the status.
\<close>

theorem fetch_json_single_attempt:
  assumes "max_attempts retry = 1"
    and "session_get w 1 = Response resp"
    and "status_code resp \<in> set (retry_statuses retry)"
    and "\<not> (200 \<le> status_code resp \<and> status_code resp < 300)"
  shows "\<exists>r rest. fetch_json retry w = (Returns r, [Get 1])
           \<and> \<not> ok r \<and> data r = PNone \<and> status r = Some (status_code resp) \<and> attempts r = 1
           \<and> error r = Some (''HTTP '' @ py_str (status_code resp) @ rest)"
proof -
  have ks: "[1..max 1 (max_attempts retry)] = [1]"
    using assms(1) by (simp add: upto_rec1)
  from assms(1) have "\<not> (status_code resp \<in> set (retry_statuses retry) \<and> 1 < max_attempts retry)"
    by simp
  from fetch_loop_final_step [OF assms(2) assms(4) this]
  have "fetch_json retry w = (Returns (final_failure resp 1 None), [Get 1])"
    by (simp add: fetch_json_def ks)
  then show ?thesis
    by (auto simp: final_failure_def Let_def split: option.splits)
qed

theorem fetch_json_single_attempt_witness:
  "max_attempts one_attempt = 1
   \<and> session_get (answers rate_limited) 1 = Response rate_limited
   \<and> status_code rate_limited \<in> set (retry_statuses one_attempt)
   \<and> \<not> (200 \<le> status_code rate_limited \<and> status_code rate_limited < 300)
   \<and> (\<exists>r rest. fetch_json one_attempt (answers rate_limited) = (Returns r, [Get 1])
           \<and> \<not> ok r \<and> data r = PNone \<and> status r = Some (status_code rate_limited)
           \<and> attempts r = 1
           \<and> error r = Some (''HTTP '' @ py_str (status_code rate_limited) @ rest))"
proof -
  have a: "max_attempts one_attempt = 1"
    by (simp add: one_attempt_def)
  have b: "session_get (answers rate_limited) 1 = Response rate_limited"
    by (simp add: answers_def)
  have c: "status_code rate_limited \<in> set (retry_statuses one_attempt)"
    by (simp add: one_attempt_def default_RetryConfig_def rate_limited_def)
  have d: "\<not> (200 \<le> status_code rate_limited \<and> status_code rate_limited < 300)"
    by (simp add: rate_limited_def)
  from fetch_json_single_attempt [OF a b c d] a b c d show ?thesis
    by blast
qed

text \<open>
  The claim as stated covers every status in \<open>retry_statuses\<close>. The success path is tested
  first: with 202 among the retry statuses, a 202 response with a JSON body is a success.
\<close>

theorem fetch_json_retryable_2xx_counterexample:
  "max_attempts retry_accepted = 1
   \<and> session_get (answers accepted) 1 = Response accepted
   \<and> status_code accepted \<in> set (retry_statuses retry_accepted)
   \<and> fetch_json retry_accepted (answers accepted)
       = (Returns \<lparr>ok = True, status = Some 202, data = PDict [],
                   headers = Some [(''Content-Type'', ''application/json'')], error = None,
                   attempts = 1, last_retry_after_s = None\<rparr>, [Get 1])"
  by code_simp

text \<open>
  Claim C6. When an attempt of \<open>fetch_json\<close> receives a response with a status in
  \<open>[200, 300)\<close>, the call returns, that request is its last event (nothing is slept,
  nothing is retried) and the result counts that attempt. If \<open>resp.json()\<close> raises, the
  result is not \<open>ok\<close>, its \<open>data\<close> is \<open>None\<close> and its \<open>error\<close> is \<open>Invalid JSON payload:\<close>
  followed by the message of the exception; if it returns, the result is \<open>ok\<close> with the
  parsed value as \<open>data\<close> and no \<open>error\<close>. Either way the result carries the status and the
  headers of the response, \<open>None\<close> standing for the headers of a response that has none.
\<close>

theorem fetch_json_2xx:
  assumes "Get k \<in> set (snd (fetch_json retry w))"
    and "session_get w k = Response resp"
    and "200 \<le> status_code resp" and "status_code resp < 300"
  shows "\<exists>r. fst (fetch_json retry w) = Returns r
       \<and> attempts r = k
       \<and> last (snd (fetch_json retry w)) = Get k
       \<and> status r = Some (status_code resp)
       \<and> headers r = (if resp_headers resp = [] then None else Some (resp_headers resp))
       \<and> (case resp_json resp of
            Inl e \<Rightarrow> \<not> ok r \<and> data r = PNone
                     \<and> error r = Some (''Invalid JSON payload: '' @ e)
          | Inr parsed \<Rightarrow> ok r \<and> data r = parsed \<and> error r = None)"
proof -
  let ?ks = "[1..max 1 (max_attempts retry)]"
  from assms(1) have "Get k \<in> set (snd (fetch_loop retry w None ?ks))"
    by (simp add: fetch_json_snd)
  from fetch_loop_at [OF this] obtain pre l' ks1 ks2
    where "?ks = ks1 @ k # ks2"
      and run: "fetch_loop retry w None ?ks = then_events pre (fetch_loop retry w l' (k # ks2))"
    by blast
  from assms(3,4) have "200 \<le> status_code resp \<and> status_code resp < 300" by simp
  from fetch_loop_2xx_step [OF assms(2) this]
  have "fetch_loop retry w l' (k # ks2) = (Return (success_path resp k l'), [Get k])" .
  with run have loop: "fetch_loop retry w None ?ks = (Return (success_path resp k l'), pre @ [Get k])"
    by (simp add: then_events_def)
  then have "fst (fetch_json retry w) = Returns (success_path resp k l')"
    and "last (snd (fetch_json retry w)) = Get k"
    by (simp_all add: fetch_json_fst_return fetch_json_snd)
  then show ?thesis
    by (auto simp: success_path_def dict_or_none_def split: sum.splits)
qed

theorem fetch_json_2xx_witness:
  "Get 3 \<in> set (snd (fetch_json default_RetryConfig (busy_then not_json)))
   \<and> session_get (busy_then not_json) 3 = Response not_json
   \<and> 200 \<le> status_code not_json \<and> status_code not_json < 300
   \<and> (\<exists>r. fst (fetch_json default_RetryConfig (busy_then not_json)) = Returns r
        \<and> attempts r = 3
        \<and> last (snd (fetch_json default_RetryConfig (busy_then not_json))) = Get 3
        \<and> status r = Some 200
        \<and> headers r = Some [(''Content-Type'', ''text/html'')]
        \<and> \<not> ok r \<and> data r = PNone
        \<and> error r = Some ''Invalid JSON payload: Expecting value: line 1 column 1 (char 0)'')
   \<and> Get 1 \<in> set (snd (fetch_json default_RetryConfig (answers accepted)))
   \<and> session_get (answers accepted) 1 = Response accepted
   \<and> 200 \<le> status_code accepted \<and> status_code accepted < 300
   \<and> (\<exists>r. fst (fetch_json default_RetryConfig (answers accepted)) = Returns r
        \<and> attempts r = 1
        \<and> last (snd (fetch_json default_RetryConfig (answers accepted))) = Get 1
        \<and> status r = Some 202
        \<and> headers r = Some [(''Content-Type'', ''application/json'')]
        \<and> ok r \<and> data r = PDict [] \<and> error r = None)"
proof -
  have run: "snd (fetch_json default_RetryConfig (busy_then not_json))
             = [Get 1, Sleep (801 / 8), Get 2, Sleep (801 / 8), Get 3]"
    by code_simp
  have mem: "Get 3 \<in> set (snd (fetch_json default_RetryConfig (busy_then not_json)))"
    by (simp add: run)
  have resp: "session_get (busy_then not_json) 3 = Response not_json"
    by (simp add: busy_then_def)
  have st: "200 \<le> status_code not_json" "status_code not_json < 300"
    by (simp_all add: not_json_def)
  have fields: "resp_json not_json = Inl ''Expecting value: line 1 column 1 (char 0)''"
    "resp_headers not_json = [(''Content-Type'', ''text/html'')]"
    "status_code not_json = 200"
    by (simp_all add: not_json_def)
  from fetch_json_2xx [OF mem resp st]
  have first: "\<exists>r. fst (fetch_json default_RetryConfig (busy_then not_json)) = Returns r
        \<and> attempts r = 3
        \<and> last (snd (fetch_json default_RetryConfig (busy_then not_json))) = Get 3
        \<and> status r = Some 200
        \<and> headers r = Some [(''Content-Type'', ''text/html'')]
        \<and> \<not> ok r \<and> data r = PNone
        \<and> error r = Some ''Invalid JSON payload: Expecting value: line 1 column 1 (char 0)''"
    by (simp add: fields)
  have run': "snd (fetch_json default_RetryConfig (answers accepted)) = [Get 1]"
    by code_simp
  have mem': "Get 1 \<in> set (snd (fetch_json default_RetryConfig (answers accepted)))"
    by (simp add: run')
  have resp': "session_get (answers accepted) 1 = Response accepted"
    by (simp add: answers_def)
  have st': "200 \<le> status_code accepted" "status_code accepted < 300"
    by (simp_all add: accepted_def)
  have fields': "resp_json accepted = Inr (PDict [])"
    "resp_headers accepted = [(''Content-Type'', ''application/json'')]"
    "status_code accepted = 202"
    by (simp_all add: accepted_def)
  from fetch_json_2xx [OF mem' resp' st']
  have second: "\<exists>r. fst (fetch_json default_RetryConfig (answers accepted)) = Returns r
        \<and> attempts r = 1
        \<and> last (snd (fetch_json default_RetryConfig (answers accepted))) = Get 1
        \<and> status r = Some 202
        \<and> headers r = Some [(''Content-Type'', ''application/json'')]
        \<and> ok r \<and> data r = PDict [] \<and> error r = None"
    by (simp add: fields')
  from mem resp st first mem' resp' st' second show ?thesis by blast
qed




section \<open>The JSON files\<close>

subsection \<open>What json gives back\<close>

lemma those_map_Some:
  "(\<And>x. x \<in> set xs \<Longrightarrow> f x = Some (g x)) \<Longrightarrow> those (map f xs) = Some (map g xs)"
  by (induction xs) auto

lemma py_eq_items_map:
  "(\<And>x. x \<in> set xs \<Longrightarrow> py_eq (g x) x) \<Longrightarrow> py_eq_items (map g xs) xs"
  by (induction xs) auto

lemma py_eq_values_iff:
  "py_eq_values kvs kws
     = (\<forall>(k, v) \<in> set kvs. case map_of kws k of None \<Rightarrow> False | Some v' \<Rightarrow> py_eq v v')"
  by (induction kvs) auto

lemma update_fresh:
  "k \<notin> fst ` set al \<Longrightarrow> AList.update k v al = al @ [(k, v)]"
  by (induction al) auto

lemma foldl_update_distinct:
  "distinct (map fst (acc @ kvs)) \<Longrightarrow>
     foldl (\<lambda>d (k, v). AList.update k v d) acc kvs = acc @ kvs"
proof (induction kvs arbitrary: acc)
  case Nil
  then show ?case by simp
next
  case (Cons kv kvs)
  obtain k v where kv: "kv = (k, v)" by (cases kv)
  with Cons.prems have fresh: "k \<notin> fst ` set acc" by auto
  from Cons.prems kv have "distinct (map fst ((acc @ [(k, v)]) @ kvs))" by simp
  from Cons.IH [OF this] fresh kv show ?case by (simp add: update_fresh)
qed

lemma dict_of_pairs_distinct:
  "distinct (map fst kvs) \<Longrightarrow> dict_of_pairs kvs = kvs"
  using foldl_update_distinct [of "[]" kvs] by (simp add: dict_of_pairs_def)

lemma distinct_map_sort_key:
  "distinct (map f (sort_key f xs)) = distinct (map f xs)"
  by (simp add: distinct_map)

lemma json_round_trip:
  "json_native v \<Longrightarrow> \<exists>d. to_json v = Some d \<and> py_eq (of_json d) v"
proof (induction v)
  case (PList xs)
  have each: "\<And>x. x \<in> set xs \<Longrightarrow> to_json x = Some (the (to_json x)) \<and> py_eq (of_json (the (to_json x))) x"
    using PList by (fastforce simp: list_all_iff)
  then have "those (map to_json xs) = Some (map (\<lambda>x. the (to_json x)) xs)"
    by (intro those_map_Some) blast
  moreover have "py_eq_items (map (\<lambda>x. of_json (the (to_json x))) xs) xs"
    by (rule py_eq_items_map) (use each in blast)
  ultimately show ?case by (simp add: comp_def)
next
  case (PDict kvs)
  let ?enc = "\<lambda>(k, v). map_option (Pair k) (to_json v)"
  let ?g = "\<lambda>kv. (fst kv, the (to_json (snd kv)))"
  let ?h = "\<lambda>kv. (fst kv, of_json (the (to_json (snd kv))))"
  from PDict.prems have dist: "distinct (map fst kvs)"
    and nat: "\<And>kv. kv \<in> set kvs \<Longrightarrow> json_native (snd kv)"
    by (auto simp: list_all_iff)
  have each: "to_json (snd kv) = Some (the (to_json (snd kv)))
              \<and> py_eq (of_json (the (to_json (snd kv)))) (snd kv)" if mem: "kv \<in> set kvs" for kv
  proof -
    have "snd kv \<in> Basic_BNFs.snds kv" by (cases kv) simp
    from PDict.IH [OF mem this nat [OF mem]] show ?thesis by auto
  qed
  have "\<And>kv. kv \<in> set kvs \<Longrightarrow> ?enc kv = Some (?g kv)"
    using each by (auto simp: split_def)
  then have "those (map ?enc kvs) = Some (map ?g kvs)"
    by (rule those_map_Some)
  then have enc: "to_json (PDict kvs) = Some (JObject (sort_key fst (map ?g kvs)))"
    by simp
  let ?items = "map (\<lambda>(k, d). (k, of_json d)) (sort_key fst (map ?g kvs))"
  have fst_items: "map fst ?items = map fst (sort_key fst (map ?g kvs))"
    by (simp add: comp_def split_def)
  have "distinct (map fst (sort_key fst (map ?g kvs)))"
    using dist by (simp add: distinct_map_sort_key comp_def)
  then have "distinct (map fst ?items)" by (simp only: fst_items)
  then have dict: "dict_of_pairs ?items = ?items" by (rule dict_of_pairs_distinct)
  have set_items: "set ?items = ?h ` set kvs"
    by (simp add: image_image split_def)
  have "\<forall>kv \<in> set kvs. case map_of kvs (fst kv) of None \<Rightarrow> False
           | Some v' \<Rightarrow> py_eq (of_json (the (to_json (snd kv)))) v'"
  proof
    fix kv assume mem: "kv \<in> set kvs"
    with dist have "map_of kvs (fst kv) = Some (snd kv)" by (cases kv) simp
    with each [OF mem] show "case map_of kvs (fst kv) of None \<Rightarrow> False
           | Some v' \<Rightarrow> py_eq (of_json (the (to_json (snd kv)))) v'" by simp
  qed
  then have "py_eq_values ?items kvs"
    unfolding py_eq_values_iff set_items by simp
  with dict have "py_eq (of_json (JObject (sort_key fst (map ?g kvs)))) (PDict kvs)"
    by simp
  with enc show ?case by blast
qed simp_all

subsection \<open>The steps of the atomic writer\<close>

lemma tmp_neq:
  "name p \<noteq> [] \<Longrightarrow> p \<noteq> p\<lparr>name := name p @ ''.tmp.'' @ str_nat pid\<rparr>"
proof
  assume "p = p\<lparr>name := name p @ ''.tmp.'' @ str_nat pid\<rparr>"
  then have "name p = name (p\<lparr>name := name p @ ''.tmp.'' @ str_nat pid\<rparr>)" by simp
  then show False by simp
qed

lemma cleanup_other: "q \<noteq> tmp \<Longrightarrow> cleanup w fs tmp q = fs q"
  by (simp add: cleanup_def)

lemma write_json_other: "q \<noteq> p \<Longrightarrow> snd (write_json w fs p obj) q = fs q"
  by (simp add: write_json_def split: option.splits)

lemma dump_json_atomic_cases:
  assumes "name p \<noteq> []" and "tmp = p\<lparr>name := name p @ ''.tmp.'' @ str_nat pid\<rparr>"
  shows "dump_json_atomic w pid fs p obj =
     (if mkdir_raises w then (Some (OSError Mkdir), fs)
      else if open_raises w then (Some (OSError Open), cleanup w fs tmp)
      else case to_json obj of
             None \<Rightarrow> (Some TypeError, cleanup w (fs(tmp \<mapsto> Incomplete)) tmp)
           | Some d \<Rightarrow>
               if write_raises w
               then (Some (OSError Write),
                     cleanup w (fs(tmp \<mapsto> (if raises_at_newline w then No_newline d
                                              else Incomplete))) tmp)
               else if replace_raises w
               then (Some (OSError Replace), cleanup w (fs(tmp \<mapsto> Document d)) tmp)
               else (None, cleanup w (fs(tmp := None, p \<mapsto> Document d)) tmp))"
  using assms(1) unfolding assms(2)
  by (simp add: dump_json_atomic_def with_name_def write_json_def replace_def split: option.splits)

lemma index_tmp_eq:
  "index_json\<lparr>name := name index_json @ ''.tmp.'' @ str_nat 4242\<rparr> = index_tmp"
  by (simp add: index_json_def index_tmp_def str_nat.simps digit_char_def)

lemma to_json_new_value: "to_json new_value = Some new_document"
  by (simp add: new_value_def new_document_def)

subsection \<open>The claims about the writers\<close>

text \<open>
  Claim C7, as the code has it. For every value, path, process id, file system and choice
  of failing calls, after \<open>dump_json_atomic\<close> the file at the target path is what it was
  before, or the call succeeded and it is the complete new document: never an incomplete
  one. After a rename that raises, the target is what it was before; the temp file is gone
  when the cleanup's \<open>exists\<close> and \<open>unlink\<close> do not raise, and it stays, holding the
  complete new document, when one of them does (the cleanup swallows that).
\<close>

theorem dump_json_atomic_target:
  "(snd (dump_json_atomic w pid fs p obj) p = fs p
    \<or> (fst (dump_json_atomic w pid fs p obj) = None
        \<and> (\<exists>d. to_json obj = Some d \<and> snd (dump_json_atomic w pid fs p obj) p = Some (Document d))))
   \<and> (fst (dump_json_atomic w pid fs p obj) = Some (OSError Replace) \<longrightarrow>
        snd (dump_json_atomic w pid fs p obj) p = fs p
        \<and> (\<not> exists_raises w \<and> \<not> unlink_raises w \<longrightarrow>
             snd (dump_json_atomic w pid fs p obj) (p\<lparr>name := name p @ ''.tmp.'' @ str_nat pid\<rparr>) = None)
        \<and> (exists_raises w \<or> unlink_raises w \<longrightarrow>
             (\<exists>d. to_json obj = Some d
                \<and> snd (dump_json_atomic w pid fs p obj) (p\<lparr>name := name p @ ''.tmp.'' @ str_nat pid\<rparr>)
                    = Some (Document d))))"
proof (cases "name p = []")
  case True
  then show ?thesis
    by (simp add: dump_json_atomic_def with_name_def)
next
  case False
  define tmp where "tmp = p\<lparr>name := name p @ ''.tmp.'' @ str_nat pid\<rparr>"
  from tmp_neq [OF False] have neq: "p \<noteq> tmp" "tmp \<noteq> p"
    unfolding tmp_def by (simp_all add: not_sym)
  note run = dump_json_atomic_cases [OF False tmp_def, of w fs obj]
  have target: "snd (dump_json_atomic w pid fs p obj) p = fs p
    \<or> (fst (dump_json_atomic w pid fs p obj) = None
        \<and> (\<exists>d. to_json obj = Some d \<and> snd (dump_json_atomic w pid fs p obj) p = Some (Document d)))"
    unfolding run using neq by (simp add: cleanup_other split: option.splits)
  have failed: "fst (dump_json_atomic w pid fs p obj) = Some (OSError Replace) \<longrightarrow>
        snd (dump_json_atomic w pid fs p obj) p = fs p
        \<and> (\<not> exists_raises w \<and> \<not> unlink_raises w \<longrightarrow>
             snd (dump_json_atomic w pid fs p obj) tmp = None)
        \<and> (exists_raises w \<or> unlink_raises w \<longrightarrow>
             (\<exists>d. to_json obj = Some d
                \<and> snd (dump_json_atomic w pid fs p obj) tmp = Some (Document d)))"
    unfolding run using neq by (auto simp: cleanup_def split: option.splits)
  from target failed show ?thesis unfolding tmp_def by blast
qed

theorem dump_json_atomic_target_witness:
  "fst (dump_json_atomic rename_fails 4242 old_files index_json new_value) = Some (OSError Replace)
   \<and> \<not> exists_raises rename_fails \<and> \<not> unlink_raises rename_fails
   \<and> snd (dump_json_atomic rename_fails 4242 old_files index_json new_value) index_json
       = Some (Document old_document)
   \<and> snd (dump_json_atomic rename_fails 4242 old_files index_json new_value) index_tmp = None"
proof -
  have name: "name index_json \<noteq> []" by (simp add: index_json_def)
  have e: "fst (dump_json_atomic rename_fails 4242 old_files index_json new_value)
           = Some (OSError Replace)"
    by (simp add: dump_json_atomic_cases [OF name index_tmp_eq [symmetric]] rename_fails_def
        no_faults_def to_json_new_value)
  have c: "\<not> exists_raises rename_fails" "\<not> unlink_raises rename_fails"
    by (simp_all add: rename_fails_def no_faults_def)
  have old: "old_files index_json = Some (Document old_document)"
    by (simp add: old_files_def)
  from dump_json_atomic_target [of rename_fails 4242 old_files index_json new_value,
      unfolded index_tmp_eq] e c old
  show ?thesis by simp
qed

text \<open>
  The claim as stated has the temp file removed after every failed rename. When the rename
  and the \<open>unlink\<close> of the cleanup both raise, the \<open>except Exception: pass\<close> of the cleanup
  swallows the second failure and the temp file stays.
\<close>

theorem dump_json_atomic_cleanup_fails_counterexample:
  "fst (dump_json_atomic rename_and_unlink_fail 4242 old_files index_json new_value)
     = Some (OSError Replace)
   \<and> old_files index_tmp = None
   \<and> snd (dump_json_atomic rename_and_unlink_fail 4242 old_files index_json new_value) index_tmp
       = Some (Document new_document)
   \<and> snd (dump_json_atomic rename_and_unlink_fail 4242 old_files index_json new_value) index_tmp
       \<noteq> None"
proof -
  have name: "name index_json \<noteq> []" by (simp add: index_json_def)
  have neq: "index_tmp \<noteq> index_json" by (simp add: index_json_def index_tmp_def)
  show ?thesis
    using neq
    by (simp add: dump_json_atomic_cases [OF name index_tmp_eq [symmetric]]
        rename_and_unlink_fail_def no_faults_def to_json_new_value cleanup_def old_files_def)
qed

text \<open>
  Claim C8, as the code has it. For every path and every value built from \<open>None\<close>,
  booleans, integers, finite floats, strings, lists and dicts with string keys, when
  \<open>mkdir\<close>, \<open>open\<close> and the write do not raise, \<open>dump_json\<close> returns without an exception and
  \<open>load_json\<close> of the file it wrote returns a value equal (\<open>==\<close>) to the one written.
\<close>

theorem load_json_dump_json:
  assumes "json_native v"
    and "\<not> mkdir_raises w" and "\<not> open_raises w" and "\<not> write_raises w"
  shows "fst (dump_json w fs p v) = None
       \<and> (\<exists>v'. load_json w (snd (dump_json w fs p v)) p = Inr v' \<and> py_eq v' v)"
proof -
  from json_round_trip [OF assms(1)] obtain d
    where d: "to_json v = Some d" and eq: "py_eq (of_json d) v" by blast
  from d assms(2-4) have "dump_json w fs p v = (None, fs(p \<mapsto> Document d))"
    by (simp add: dump_json_def write_json_def)
  with assms(3) eq show ?thesis
    by (simp add: load_json_def)
qed

theorem load_json_dump_json_witness:
  "json_native new_value
   \<and> \<not> mkdir_raises no_faults \<and> \<not> open_raises no_faults \<and> \<not> write_raises no_faults
   \<and> fst (dump_json no_faults old_files index_json new_value) = None
   \<and> (\<exists>v'. load_json no_faults (snd (dump_json no_faults old_files index_json new_value)) index_json
              = Inr v' \<and> py_eq v' new_value)"
proof -
  have a: "json_native new_value" by (simp add: new_value_def)
  have b: "\<not> mkdir_raises no_faults" "\<not> open_raises no_faults" "\<not> write_raises no_faults"
    by (simp_all add: no_faults_def)
  from load_json_dump_json [OF a b] a b show ?thesis by blast
qed

text \<open>
  The claim as stated covers every value \<open>json\<close> can serialise. A tuple is one: \<open>(1, 2)\<close>
  is written as the array \<open>[1, 2]\<close> and read back as a list, and a list is not equal to a
  tuple.
\<close>

theorem load_json_dump_json_tuple_counterexample:
  "to_json a_pair = Some (JArray [JInt 1, JInt 2])
   \<and> fst (dump_json no_faults old_files index_json a_pair) = None
   \<and> load_json no_faults (snd (dump_json no_faults old_files index_json a_pair)) index_json
       = Inr (PList [PInt 1, PInt 2])
   \<and> \<not> py_eq (PList [PInt 1, PInt 2]) a_pair"
  by (simp add: a_pair_def dump_json_def write_json_def load_json_def no_faults_def)




end
